theory Spec2Isabelle
  imports Main "HOL-Library.Sublist"
begin

section \<open>Strings and paths\<close>

text \<open>
  Python strings are modelled as \<open>string\<close>; a \<open>char\<close> stands for a code point below 256.
  \<open>is_space\<close> is \<^verbatim>\<open>str.isspace\<close> on these code points, which is also what \<^verbatim>\<open>\s\<close> matches
  in a \<^verbatim>\<open>str\<close> pattern and what \<^verbatim>\<open>str.strip()\<close> removes.
\<close>

definition is_space :: "char \<Rightarrow> bool" where
  "is_space c = (c \<in> set [CHR 0x09, CHR 0x0A, CHR 0x0B, CHR 0x0C, CHR 0x0D,
                          CHR 0x1C, CHR 0x1D, CHR 0x1E, CHR 0x1F, CHR 0x20,
                          CHR 0x85, CHR 0xA0])"

definition is_lower :: "char \<Rightarrow> bool" where
  "is_lower c = (97 \<le> (of_char c :: nat) \<and> (of_char c :: nat) \<le> 122)"

definition is_slash :: "char \<Rightarrow> bool" where
  "is_slash c = (c = CHR ''/'')"

definition lstrip :: "(char \<Rightarrow> bool) \<Rightarrow> string \<Rightarrow> string" where
  "lstrip p s = dropWhile p s"

definition rstrip :: "(char \<Rightarrow> bool) \<Rightarrow> string \<Rightarrow> string" where
  "rstrip p s = rev (dropWhile p (rev s))"

definition strip :: "(char \<Rightarrow> bool) \<Rightarrow> string \<Rightarrow> string" where
  "strip p s = lstrip p (rstrip p s)"

definition startswith :: "string \<Rightarrow> string \<Rightarrow> bool" where
  "startswith s p = (take (length p) s = p)"

definition endswith :: "string \<Rightarrow> string \<Rightarrow> bool" where
  "endswith s p = startswith (rev s) (rev p)"

text \<open>\<^verbatim>\<open>sub in s\<close> on strings.\<close>

fun contains :: "string \<Rightarrow> string \<Rightarrow> bool" where
  "contains sub [] = (sub = [])"
| "contains sub (c # cs) = (startswith (c # cs) sub \<or> contains sub cs)"

text \<open>\<^verbatim>\<open>s.split(",", 1)\<close> unpacked into two names: \<open>None\<close> is the \<^verbatim>\<open>ValueError\<close> of the
  unpacking when \<open>s\<close> has no comma.\<close>

definition split_comma :: "string \<Rightarrow> (string \<times> string) option" where
  "split_comma s =
     (if CHR '','' \<in> set s
      then Some (takeWhile (\<lambda>c. c \<noteq> CHR '','') s, tl (dropWhile (\<lambda>c. c \<noteq> CHR '','') s))
      else None)"

text \<open>\<^verbatim>\<open>os.path.join(a, b)\<close> and \<^verbatim>\<open>os.path.dirname(p)\<close> of \<^verbatim>\<open>posixpath\<close>.\<close>

definition path_join :: "string \<Rightarrow> string \<Rightarrow> string" where
  "path_join a b =
     (if startswith b ''/'' then b
      else if a = [] \<or> endswith a ''/'' then a @ b
      else a @ ''/'' @ b)"

definition dirname :: "string \<Rightarrow> string" where
  "dirname p =
     (let head = rev (dropWhile (\<lambda>c. c \<noteq> CHR ''/'') (rev p))
      in if head \<noteq> [] \<and> \<not> list_all is_slash head then rstrip is_slash head else head)"

section \<open>Regular expressions\<close>

text \<open>
  The two patterns of the program are kept as data and run by a backtracking matcher
  with the semantics of Python's \<^verbatim>\<open>re\<close>: alternatives are tried left to right, a
  repetition is greedy and gives characters back one at a time, and a search tries the
  start positions from left to right.
\<close>

datatype cclass = Dot | Lower | Space | Slash

fun in_class :: "cclass \<Rightarrow> char \<Rightarrow> bool" where
  "in_class Dot c = (c \<noteq> CHR 0x0A)"
| "in_class Lower c = is_lower c"
| "in_class Space c = is_space c"
| "in_class Slash c = is_slash c"

datatype regex =
    Lit string
  | Rep cclass nat "nat option"
  | Bos
  | Eol
  | Group string regex
  | Seq regex regex
  | Alt regex regex

text \<open>A match state: the position in the subject, the text from there on, the groups
  captured so far.\<close>

type_synonym mstate = "nat \<times> string \<times> (string \<times> string) list"

text \<open>\<open>rep c m mx\<close> is the greedy \<^verbatim>\<open>c{m,mx}\<close> (\<open>mx = None\<close>: no upper bound).\<close>

fun rep :: "cclass \<Rightarrow> nat \<Rightarrow> nat option \<Rightarrow> nat \<Rightarrow> string \<Rightarrow>
            (nat \<Rightarrow> string \<Rightarrow> 'a option) \<Rightarrow> 'a option" where
  "rep c m mx pos [] k = (if m = 0 then k pos [] else None)"
| "rep c m mx pos (x # xs) k =
     (if in_class c x \<and> mx \<noteq> Some 0 then
        (case rep c (m - 1) (map_option (\<lambda>n. n - 1) mx) (Suc pos) xs k of
           Some r \<Rightarrow> Some r
         | None \<Rightarrow> if m = 0 then k pos (x # xs) else None)
      else if m = 0 then k pos (x # xs) else None)"

text \<open>\<open>Bos\<close> is \<^verbatim>\<open>^\<close> without \<^verbatim>\<open>re.MULTILINE\<close>; \<open>Eol\<close> is \<^verbatim>\<open>$\<close> with it.\<close>

fun bt :: "regex \<Rightarrow> mstate \<Rightarrow> (mstate \<Rightarrow> 'a option) \<Rightarrow> 'a option" where
  "bt (Lit l) (pos, s, caps) k =
     (if take (length l) s = l then k (pos + length l, drop (length l) s, caps) else None)"
| "bt (Rep c m mx) (pos, s, caps) k = rep c m mx pos s (\<lambda>pos' s'. k (pos', s', caps))"
| "bt Bos (pos, s, caps) k = (if pos = 0 then k (pos, s, caps) else None)"
| "bt Eol (pos, s, caps) k =
     (if s = [] \<or> hd s = CHR 0x0A then k (pos, s, caps) else None)"
| "bt (Group name r) (pos, s, caps) k =
     bt r (pos, s, caps)
       (\<lambda>(pos', s', caps'). k (pos', s', (name, take (pos' - pos) s) # caps'))"
| "bt (Seq r1 r2) st k = bt r1 st (\<lambda>st'. bt r2 st' k)"
| "bt (Alt r1 r2) st k = (case bt r1 st k of Some m \<Rightarrow> Some m | None \<Rightarrow> bt r2 st k)"

text \<open>\<^verbatim>\<open>pattern.search(s)\<close>: the match at the leftmost position that has one.\<close>

fun search :: "regex \<Rightarrow> nat \<Rightarrow> string \<Rightarrow> mstate option" where
  "search r pos [] = bt r (pos, [], []) Some"
| "search r pos (c # cs) =
     (case bt r (pos, c # cs, []) Some of
        Some m \<Rightarrow> Some m
      | None \<Rightarrow> search r (Suc pos) cs)"

definition group :: "string \<Rightarrow> mstate \<Rightarrow> string option" where
  "group name m = map_of (snd (snd m)) name"

text \<open>\<^verbatim>\<open>re.sub(pattern, '', s)\<close>: every leftmost non-overlapping match is removed.
  \<open>skip\<close> counts the characters of the current match still to be dropped.\<close>

fun re_sub_empty :: "regex \<Rightarrow> nat \<Rightarrow> nat \<Rightarrow> string \<Rightarrow> string" where
  "re_sub_empty r skip pos [] = []"
| "re_sub_empty r skip pos (c # cs) =
     (if 0 < skip then re_sub_empty r (skip - 1) (Suc pos) cs
      else (case bt r (pos, c # cs, []) Some of
              Some (pos', _, _) \<Rightarrow>
                if pos < pos' then re_sub_empty r (pos' - pos - 1) (Suc pos) cs
                else c # re_sub_empty r 0 (Suc pos) cs
            | None \<Rightarrow> c # re_sub_empty r 0 (Suc pos) cs))"

text \<open>Line 64:
  \<^verbatim>\<open>//# sourceMappingURL=(?P<url>.+)$|/\*# sourceMappingURL=(?P<url2>.+)\s*\*/\<close>
  compiled with \<^verbatim>\<open>re.MULTILINE\<close>.\<close>

definition sm_re :: regex where
  "sm_re =
     Alt (Seq (Lit ''//# sourceMappingURL='') (Seq (Group ''url'' (Rep Dot 1 None)) Eol))
         (Seq (Lit ''/*# sourceMappingURL='')
              (Seq (Group ''url2'' (Rep Dot 1 None)) (Seq (Rep Space 0 None) (Lit ''*/''))))"

text \<open>Line 182: \<^verbatim>\<open>^[a-z]+:/{0,3}\<close>.\<close>

definition scheme_re :: regex where
  "scheme_re = Seq Bos (Seq (Rep Lower 1 None) (Seq (Lit '':'') (Rep Slash 0 (Some 3))))"

section \<open>The program\<close>

subsection \<open>Values, exceptions, effects\<close>

text \<open>What \<^verbatim>\<open>json.loads\<close> returns. An object is the list of its items; a number is kept
  as an integer, the program only tests it for zero.\<close>

datatype json =
    JNull
  | JBool bool
  | JNum int
  | JStr string
  | JArr "json list"
  | JObj "(string \<times> json) list"

fun truthy :: "json \<Rightarrow> bool" where
  "truthy JNull = False"
| "truthy (JBool b) = b"
| "truthy (JNum n) = (n \<noteq> 0)"
| "truthy (JStr s) = (s \<noteq> [])"
| "truthy (JArr xs) = (xs \<noteq> [])"
| "truthy (JObj kvs) = (kvs \<noteq> [])"

datatype exn =
    TypeError
  | AttributeError
  | KeyError
  | JSONDecodeError
  | Base64Error
  | UrlValueError
  | RequestException
  | HTTPError
  | FileNotFoundError
  | FileExistsError
  | IsADirectoryError
  | NotADirectoryError
  | PermissionError
  | ValueError

text \<open>One constructor for each \<^verbatim>\<open>print\<close> of the program, with the values it formats
  (an exception's own message is left out). Writing a line to the standard output is
  taken to succeed.\<close>

datatype log_line =
    Usage
  | Found_entries nat string
  | Inline_mapping "string option"
  | Failed_map string
  | Failed_js string
  | No_mapping string
  | Found_map string string
  | Could_not_load string
  | Could_not_obtain json
  | Saved string
  | Summary nat nat string

text \<open>The effects of a run, in order: \<open>MkDirs d\<close> is a call
  \<^verbatim>\<open>os.makedirs(d, exist_ok=True)\<close> that has returned, so that \<open>d\<close> is a directory from then
  on; \<open>Get u\<close> is \<^verbatim>\<open>session.get(u, timeout=20)\<close>; \<open>Write p c\<close> is an \<^verbatim>\<open>open(p, "wb")\<close> that
  has returned, followed by the writing of \<open>c\<close>, and leaves the file \<open>p\<close> holding exactly
  \<open>c\<close>. A call of the file system that raises leaves no event.\<close>

datatype event =
    MkDirs string
  | Get string
  | Write string string
  | Print log_line

record state =
  trace :: "event list"
  processed_maps :: nat
  saved_files :: nat

definition init :: state where
  "init = \<lparr>trace = [], processed_maps = 0, saved_files = 0\<rparr>"

definition emit :: "event \<Rightarrow> state \<Rightarrow> state" where
  "emit e st = st\<lparr>trace := trace st @ [e]\<rparr>"

record response =
  status_code :: nat
  rtext :: string
  rurl :: string

text \<open>
  The world outside the program and the libraries it calls, as parameters:
  \<open>http_get u\<close> is the response to a GET of \<open>u\<close> (\<open>None\<close>: the request raises),
  \<open>urljoin\<close>, \<open>json_loads\<close> and \<open>b64decode\<close> are the library functions on strings
  (\<open>None\<close>: the call raises), \<open>script_tags html\<close> lists for every \<^verbatim>\<open><script>\<close> element
  found by \<^verbatim>\<open>BeautifulSoup\<close> its \<^verbatim>\<open>src\<close> attribute and its \<^verbatim>\<open>.string\<close>.

  The file system is a parameter too, and what it answers may depend on the effects \<open>tr\<close>
  the run has had so far: \<open>path_exists tr p\<close> is \<^verbatim>\<open>os.path.exists(p)\<close>, \<open>makedirs tr d\<close> is
  the exception that \<^verbatim>\<open>os.makedirs(d, exist_ok=True)\<close> raises (\<open>None\<close>: it returns), and
  \<open>open_wb tr p\<close> is the exception that \<^verbatim>\<open>open(p, "wb")\<close> raises (\<open>None\<close>: the file is
  opened, created or emptied). Python raises \<^verbatim>\<open>FileNotFoundError\<close> for
  \<^verbatim>\<open>os.makedirs("")\<close>, \<^verbatim>\<open>FileExistsError\<close> for a path that is a regular file,
  \<^verbatim>\<open>IsADirectoryError\<close> for \<^verbatim>\<open>open\<close> on a path that is a directory or ends with a slash,
  \<^verbatim>\<open>ValueError\<close> for a path with a null character. Once a file is open, writing and
  closing it are taken to succeed; a string of the model has its code points below 256,
  which \<^verbatim>\<open>encode("utf-8")\<close> accepts.
\<close>

record env =
  http_get :: "string \<Rightarrow> response option"
  urljoin :: "string \<Rightarrow> string \<Rightarrow> string option"
  json_loads :: "string \<Rightarrow> json option"
  b64decode :: "string \<Rightarrow> string option"
  script_tags :: "string \<Rightarrow> (string option \<times> string option) list"
  path_exists :: "event list \<Rightarrow> string \<Rightarrow> bool"
  makedirs :: "event list \<Rightarrow> string \<Rightarrow> exn option"
  open_wb :: "event list \<Rightarrow> string \<Rightarrow> exn option"

text \<open>A step either raises (the exception and the state reached) or returns.\<close>

type_synonym 'a result = "(exn \<times> state) + ('a \<times> state)"

text \<open>\<^verbatim>\<open>r.raise_for_status()\<close> raises for the status codes 400 to 599.\<close>

definition raises_for_status :: "response \<Rightarrow> bool" where
  "raises_for_status r = (400 \<le> status_code r \<and> status_code r < 600)"

subsection \<open>Helpers of the program (lines 36 to 107)\<close>

text \<open>Lines 36 to 39, \<^verbatim>\<open>get_text\<close>.\<close>

definition get_text :: "env \<Rightarrow> string \<Rightarrow> state \<Rightarrow> (string \<times> string) result" where
  "get_text env u st =
     (let st1 = emit (Get u) st
      in case http_get env u of
           None \<Rightarrow> Inl (RequestException, st1)
         | Some r \<Rightarrow>
             if raises_for_status r then Inl (HTTPError, st1)
             else Inr ((rtext r, rurl r), st1))"

text \<open>Lines 43 to 45 of \<^verbatim>\<open>save_file\<close>: the directory of the file is made when it has a
  name and does not exist; \<^verbatim>\<open>os.makedirs\<close> may raise.\<close>

definition ensure_parent :: "env \<Rightarrow> string \<Rightarrow> state \<Rightarrow> unit result" where
  "ensure_parent env full st =
     (let d = dirname full
      in if d \<noteq> [] \<and> \<not> path_exists env (trace st) d
         then (case makedirs env (trace st) d of
                 Some e \<Rightarrow> Inl (e, st)
               | None \<Rightarrow> Inr ((), emit (MkDirs d) st))
         else Inr ((), st))"

text \<open>Lines 41 to 49, \<^verbatim>\<open>save_file\<close>. \<open>path\<close> and \<open>content\<close> are whatever the caller
  passes: \<^verbatim>\<open>os.path.join\<close> raises on a path that is no string, \<^verbatim>\<open>os.makedirs\<close> and
  \<^verbatim>\<open>open\<close> may raise, and \<^verbatim>\<open>f.write\<close> raises on a content that is no string, after
  \<^verbatim>\<open>open\<close> has created or emptied the file. Nothing in \<^verbatim>\<open>save_file\<close> or around its two
  calls catches an exception.\<close>

definition save_file :: "env \<Rightarrow> string \<Rightarrow> json \<Rightarrow> json \<Rightarrow> state \<Rightarrow> unit result" where
  "save_file env out_dir path content st =
     (case path of
        JStr p \<Rightarrow>
          (let full = path_join out_dir p
           in case ensure_parent env full st of
                Inl e \<Rightarrow> Inl e
              | Inr (_, st1) \<Rightarrow>
                  (case open_wb env (trace st1) full of
                     Some e \<Rightarrow> Inl (e, st1)
                   | None \<Rightarrow>
                       (case content of
                          JStr c \<Rightarrow> Inr ((), emit (Write full c) st1)
                        | _ \<Rightarrow> Inl (TypeError, emit (Write full []) st1))))
      | _ \<Rightarrow> Inl (TypeError, st))"

text \<open>Lines 51 to 61, \<^verbatim>\<open>find_scripts_from_html\<close>. An entry is the URL of a script or
  the text of an inline one.\<close>

datatype entry = Remote string | Inline string

fun find_scripts :: "env \<Rightarrow> string \<Rightarrow> (string option \<times> string option) list \<Rightarrow>
                     exn + entry list" where
  "find_scripts env base_url [] = Inr []"
| "find_scripts env base_url ((src, str) # tags) =
     (case (if src \<noteq> None \<and> src \<noteq> Some []
            then (case urljoin env base_url (the src) of
                    None \<Rightarrow> Inl UrlValueError
                  | Some u \<Rightarrow> Inr (Remote u))
            else Inr (Inline (case str of None \<Rightarrow> [] | Some t \<Rightarrow> t))) of
        Inl e \<Rightarrow> Inl e
      | Inr x \<Rightarrow>
          (case find_scripts env base_url tags of
             Inl e \<Rightarrow> Inl e
           | Inr xs \<Rightarrow> Inr (x # xs)))"

definition find_scripts_from_html :: "env \<Rightarrow> string \<Rightarrow> string \<Rightarrow> exn + entry list" where
  "find_scripts_from_html env html base_url = find_scripts env base_url (script_tags env html)"

text \<open>Line 70, \<^verbatim>\<open>m.group("url") or m.group("url2")\<close>: the second group when the first is
  \<^verbatim>\<open>None\<close> or empty.\<close>

definition matched_url :: "mstate \<Rightarrow> string option" where
  "matched_url m =
     (if group ''url'' m \<noteq> None \<and> group ''url'' m \<noteq> Some [] then group ''url'' m
      else group ''url2'' m)"

text \<open>Lines 66 to 71, \<^verbatim>\<open>extract_mapping_reference\<close>; \<^verbatim>\<open>.strip()\<close> on \<^verbatim>\<open>None\<close> raises.\<close>

definition extract_mapping_reference :: "string \<Rightarrow> exn + string option" where
  "extract_mapping_reference js_text =
     (case search sm_re 0 js_text of
        None \<Rightarrow> Inr None
      | Some m \<Rightarrow>
          (case matched_url m of
             None \<Rightarrow> Inl AttributeError
           | Some url \<Rightarrow> Inr (Some (strip is_space url))))"

text \<open>Lines 73 to 96, \<^verbatim>\<open>handle_map_url\<close>. The result \<open>JNull\<close> is Python's \<^verbatim>\<open>None\<close>.
  Only the split of a \<^verbatim>\<open>data:\<close> reference and the request of a remote one are inside
  a \<^verbatim>\<open>try\<close>.\<close>

definition handle_map_url :: "env \<Rightarrow> string \<Rightarrow> string \<Rightarrow> state \<Rightarrow> json result" where
  "handle_map_url env map_url_or_data js_base_url st =
     (if startswith map_url_or_data ''data:'' then
        (case split_comma map_url_or_data of
           None \<Rightarrow> Inr (JNull, st)
         | Some (header, b64) \<Rightarrow>
             if contains ''base64'' header then
               (case b64decode env b64 of
                  None \<Rightarrow> Inl (Base64Error, st)
                | Some raw \<Rightarrow>
                    (case json_loads env raw of
                       None \<Rightarrow> Inl (JSONDecodeError, st)
                     | Some j \<Rightarrow> Inr (j, st)))
             else
               (case json_loads env b64 of
                  None \<Rightarrow> Inl (JSONDecodeError, st)
                | Some j \<Rightarrow> Inr (j, st)))
      else
        (case urljoin env js_base_url map_url_or_data of
           None \<Rightarrow> Inl (UrlValueError, st)
         | Some full_map_url \<Rightarrow>
             (let st1 = emit (Get full_map_url) st;
                  failed = Inr (JNull, emit (Print (Failed_map full_map_url)) st1)
              in case http_get env full_map_url of
                   None \<Rightarrow> failed
                 | Some r \<Rightarrow>
                     if raises_for_status r then failed
                     else (case json_loads env (rtext r) of
                             None \<Rightarrow> failed
                           | Some j \<Rightarrow> Inr (j, st1)))))"

text \<open>Lines 98 to 107, \<^verbatim>\<open>try_fetch_source_by_url\<close>; every exception is swallowed.
  \<open>candidate_url\<close> is \<^verbatim>\<open>urljoin(map_url, source_path)\<close> for any value of \<^verbatim>\<open>source_path\<close>:
  \<^verbatim>\<open>urljoin\<close> returns the base for a false second argument and raises on any other
  value that is no string.\<close>

definition candidate_url :: "env \<Rightarrow> string \<Rightarrow> json \<Rightarrow> string option" where
  "candidate_url env map_url source_path =
     (case source_path of
        JStr s \<Rightarrow> urljoin env map_url s
      | _ \<Rightarrow> if map_url \<noteq> [] \<and> \<not> truthy source_path then Some map_url else None)"

definition try_fetch_source_by_url :: "env \<Rightarrow> json \<Rightarrow> string \<Rightarrow> state \<Rightarrow> string option \<times> state" where
  "try_fetch_source_by_url env source_path map_url st =
     (case candidate_url env map_url source_path of
        None \<Rightarrow> (None, st)
      | Some candidate \<Rightarrow>
          (let st1 = emit (Get candidate) st
           in case http_get env candidate of
                None \<Rightarrow> (None, st1)
              | Some r \<Rightarrow>
                  if status_code r = 200 \<and> strip is_space (rtext r) \<noteq> []
                  then (Some (rtext r), st1)
                  else (None, st1)))"

subsection \<open>Reading a map (lines 130 to 132, 139, 172 to 174, 187)\<close>

text \<open>\<^verbatim>\<open>sm_json.get(key, default)\<close>: only a dictionary has \<^verbatim>\<open>get\<close>.\<close>

definition dict_get :: "json \<Rightarrow> string \<Rightarrow> json \<Rightarrow> exn + json" where
  "dict_get d key dflt =
     (case d of
        JObj kvs \<Rightarrow> Inr (case map_of kvs key of None \<Rightarrow> dflt | Some v \<Rightarrow> v)
      | _ \<Rightarrow> Inl AttributeError)"

text \<open>What \<^verbatim>\<open>enumerate(sources)\<close> runs over.\<close>

definition py_iter :: "json \<Rightarrow> exn + json list" where
  "py_iter v =
     (case v of
        JArr xs \<Rightarrow> Inr xs
      | JStr s \<Rightarrow> Inr (map (\<lambda>c. JStr [c]) s)
      | JObj kvs \<Rightarrow> Inr (map (\<lambda>kv. JStr (fst kv)) kvs)
      | _ \<Rightarrow> Inl TypeError)"

definition py_len :: "json \<Rightarrow> exn + nat" where
  "py_len v =
     (case v of
        JArr xs \<Rightarrow> Inr (length xs)
      | JStr s \<Rightarrow> Inr (length s)
      | JObj kvs \<Rightarrow> Inr (length kvs)
      | _ \<Rightarrow> Inl TypeError)"

text \<open>\<^verbatim>\<open>contents[i]\<close> for \<open>i\<close> below \<^verbatim>\<open>len(contents)\<close>; a dictionary read from JSON has no
  integer key.\<close>

definition py_index :: "json \<Rightarrow> nat \<Rightarrow> exn + json" where
  "py_index v i =
     (case v of
        JArr xs \<Rightarrow> Inr (xs ! i)
      | JStr s \<Rightarrow> Inr (JStr [s ! i])
      | JObj kvs \<Rightarrow> Inl KeyError
      | _ \<Rightarrow> Inl TypeError)"

text \<open>Lines 139 and 187:
  \<^verbatim>\<open>contents and i < len(contents) and contents[i] is not None\<close>, with the value of
  \<^verbatim>\<open>contents[i]\<close> when the test holds.\<close>

definition embedded_content :: "json \<Rightarrow> nat \<Rightarrow> exn + json option" where
  "embedded_content contents i =
     (if \<not> truthy contents then Inr None
      else (case py_len contents of
              Inl e \<Rightarrow> Inl e
            | Inr n \<Rightarrow>
                if \<not> i < n then Inr None
                else (case py_index contents i of
                        Inl e \<Rightarrow> Inl e
                      | Inr v \<Rightarrow> if v \<noteq> JNull then Inr (Some v) else Inr None)))"

subsection \<open>The loop over the sources of a map\<close>

text \<open>Lines 180 to 185 on strings, the path sanitizer:
  \<^verbatim>\<open>cleaned = re.sub(r'^[a-z]+:/{0,3}', '', src).lstrip('/')\<close>, joined onto
  \<^verbatim>\<open>src_root.strip('/')\<close> when \<^verbatim>\<open>src_root\<close> is not empty.\<close>

definition sanitize :: "string \<Rightarrow> string \<Rightarrow> string" where
  "sanitize src src_root =
     (let cleaned = lstrip is_slash (re_sub_empty scheme_re 0 0 src)
      in if src_root \<noteq> [] then path_join (strip is_slash src_root) cleaned else cleaned)"

text \<open>The same lines on the values of the map: \<^verbatim>\<open>re.sub\<close> raises on a source that is no
  string, \<^verbatim>\<open>src_root.strip\<close> on a true root that is no string.\<close>

definition cleaned_path :: "json \<Rightarrow> json \<Rightarrow> exn + string" where
  "cleaned_path src src_root =
     (case src of
        JStr s \<Rightarrow>
          (case src_root of
             JStr r \<Rightarrow> Inr (sanitize s r)
           | _ \<Rightarrow> if truthy src_root then Inl AttributeError else Inr (sanitize s []))
      | _ \<Rightarrow> Inl TypeError)"

text \<open>Lines 134 to 136, the file name of the inline branch.\<close>

definition inline_filename :: "json \<Rightarrow> json \<Rightarrow> exn + json" where
  "inline_filename src src_root =
     (if truthy src_root then
        (case src_root of
           JStr r \<Rightarrow> (case src of JStr s \<Rightarrow> Inr (JStr (path_join r s)) | _ \<Rightarrow> Inl TypeError)
         | _ \<Rightarrow> Inl TypeError)
      else Inr src)"

text \<open>\<^verbatim>\<open>for i, x in enumerate(xs): body\<close>; an exception of the body ends the loop.\<close>

fun for_each :: "(nat \<Rightarrow> json \<Rightarrow> state \<Rightarrow> unit result) \<Rightarrow> nat \<Rightarrow> json list \<Rightarrow> state \<Rightarrow>
                 unit result" where
  "for_each body i [] st = Inr ((), st)"
| "for_each body i (x # xs) st =
     (case body i x st of
        Inl e \<Rightarrow> Inl e
      | Inr (_, st') \<Rightarrow> for_each body (Suc i) xs st')"

text \<open>Lines 138 to 143: the content of source \<open>i\<close> in the inline branch.\<close>

definition inline_content :: "env \<Rightarrow> string \<Rightarrow> json \<Rightarrow> nat \<Rightarrow> json \<Rightarrow> state \<Rightarrow>
                              json option result" where
  "inline_content env final_page_url contents i src st =
     (case embedded_content contents i of
        Inl e \<Rightarrow> Inl (e, st)
      | Inr (Some c) \<Rightarrow> Inr (Some c, st)
      | Inr None \<Rightarrow>
          (case try_fetch_source_by_url env src final_page_url st of
             (t, st1) \<Rightarrow> Inr (map_option JStr t, st1)))"

text \<open>Lines 133 to 146: the body of the loop of the inline branch.\<close>

definition inline_source :: "env \<Rightarrow> string \<Rightarrow> string \<Rightarrow> json \<Rightarrow> json \<Rightarrow> nat \<Rightarrow> json \<Rightarrow> state \<Rightarrow>
                             unit result" where
  "inline_source env out_dir final_page_url src_root contents i src st =
     (case inline_filename src src_root of
        Inl e \<Rightarrow> Inl (e, st)
      | Inr filename \<Rightarrow>
          (case inline_content env final_page_url contents i src st of
             Inl e \<Rightarrow> Inl e
           | Inr (None, st1) \<Rightarrow> Inr ((), st1)
           | Inr (Some content, st1) \<Rightarrow>
               (case save_file env out_dir filename content st1 of
                  Inl e \<Rightarrow> Inl e
                | Inr (_, st2) \<Rightarrow> Inr ((), st2\<lparr>saved_files := saved_files st2 + 1\<rparr>))))"

text \<open>Line 191: \<^verbatim>\<open>urljoin(js_final_url, sm) if not sm.startswith("data:") else js_final_url\<close>.\<close>

definition map_url_guess :: "env \<Rightarrow> string \<Rightarrow> string \<Rightarrow> string option" where
  "map_url_guess env js_final_url sm =
     (if \<not> startswith sm ''data:'' then urljoin env js_final_url sm else Some js_final_url)"

text \<open>Lines 186 to 192: the content of source \<open>i\<close> in the remote branch.\<close>

definition remote_content :: "env \<Rightarrow> string \<Rightarrow> string \<Rightarrow> json \<Rightarrow> nat \<Rightarrow> json \<Rightarrow> state \<Rightarrow>
                              json option result" where
  "remote_content env js_final_url sm contents i src st =
     (case embedded_content contents i of
        Inl e \<Rightarrow> Inl (e, st)
      | Inr (Some c) \<Rightarrow> Inr (Some c, st)
      | Inr None \<Rightarrow>
          (case map_url_guess env js_final_url sm of
             None \<Rightarrow> Inl (UrlValueError, st)
           | Some base \<Rightarrow>
               (case try_fetch_source_by_url env src base st of
                  (t, st1) \<Rightarrow> Inr (map_option JStr t, st1))))"

text \<open>Lines 177 to 198: the body of the loop of the remote branch.\<close>

definition remote_source :: "env \<Rightarrow> string \<Rightarrow> string \<Rightarrow> string \<Rightarrow> json \<Rightarrow> json \<Rightarrow> nat \<Rightarrow> json \<Rightarrow>
                             state \<Rightarrow> unit result" where
  "remote_source env out_dir js_final_url sm src_root contents i src st =
     (case cleaned_path src src_root of
        Inl e \<Rightarrow> Inl (e, st)
      | Inr cleaned \<Rightarrow>
          (case remote_content env js_final_url sm contents i src st of
             Inl e \<Rightarrow> Inl e
           | Inr (None, st1) \<Rightarrow> Inr ((), emit (Print (Could_not_obtain src)) st1)
           | Inr (Some content, st1) \<Rightarrow>
               (case save_file env out_dir (JStr cleaned) content st1 of
                  Inl e \<Rightarrow> Inl e
                | Inr (_, st2) \<Rightarrow>
                    Inr ((), emit (Print (Saved cleaned))
                               (st2\<lparr>saved_files := saved_files st2 + 1\<rparr>)))))"

text \<open>Lines 129 to 133 and 171 to 177: a loaded map is counted, its three fields are read
  with their defaults, and the body runs over the sources.\<close>

definition recover_sources :: "(json \<Rightarrow> json \<Rightarrow> nat \<Rightarrow> json \<Rightarrow> state \<Rightarrow> unit result) \<Rightarrow> json \<Rightarrow>
                               state \<Rightarrow> unit result" where
  "recover_sources body sm_json st =
     (let st1 = st\<lparr>processed_maps := processed_maps st + 1\<rparr>
      in case dict_get sm_json ''sourceRoot'' (JStr []) of
           Inl e \<Rightarrow> Inl (e, st1)
         | Inr src_root \<Rightarrow>
             (case dict_get sm_json ''sources'' (JArr []) of
                Inl e \<Rightarrow> Inl (e, st1)
              | Inr sources \<Rightarrow>
                  (case dict_get sm_json ''sourcesContent'' (JArr []) of
                     Inl e \<Rightarrow> Inl (e, st1)
                   | Inr contents \<Rightarrow>
                       (case py_iter sources of
                          Inl e \<Rightarrow> Inl (e, st1)
                        | Inr srcs \<Rightarrow> for_each (body src_root contents) 0 srcs st1))))"

subsection \<open>The main loop (lines 24 to 31 and 109 to 200)\<close>

text \<open>Lines 118 to 147: an inline script.\<close>

definition inline_entry :: "env \<Rightarrow> string \<Rightarrow> string \<Rightarrow> string \<Rightarrow> state \<Rightarrow> unit result" where
  "inline_entry env out_dir final_page_url js_text st =
     (case extract_mapping_reference js_text of
        Inl e \<Rightarrow> Inl (e, st)
      | Inr sm \<Rightarrow>
          (let st1 = emit (Print (Inline_mapping sm)) st
           in case sm of
                None \<Rightarrow> Inr ((), st1)
              | Some ref \<Rightarrow>
                  if ref = [] then Inr ((), st1)
                  else (case handle_map_url env ref final_page_url st1 of
                          Inl e \<Rightarrow> Inl e
                        | Inr (sm_json, st2) \<Rightarrow>
                            if \<not> truthy sm_json then Inr ((), st2)
                            else recover_sources (inline_source env out_dir final_page_url)
                                   sm_json st2)))"

text \<open>Lines 151 to 158: the script is fetched inside a \<^verbatim>\<open>try\<close>.\<close>

definition fetch_js :: "env \<Rightarrow> string \<Rightarrow> response option" where
  "fetch_js env js_url =
     (case http_get env js_url of
        None \<Rightarrow> None
      | Some r \<Rightarrow> if raises_for_status r then None else Some r)"

text \<open>Lines 150 to 198: a script given by its URL.\<close>

definition remote_entry :: "env \<Rightarrow> string \<Rightarrow> string \<Rightarrow> state \<Rightarrow> unit result" where
  "remote_entry env out_dir js_url st =
     (let st1 = emit (Get js_url) st
      in case fetch_js env js_url of
           None \<Rightarrow> Inr ((), emit (Print (Failed_js js_url)) st1)
         | Some r \<Rightarrow>
             (case extract_mapping_reference (rtext r) of
                Inl e \<Rightarrow> Inl (e, st1)
              | Inr None \<Rightarrow> Inr ((), emit (Print (No_mapping js_url)) st1)
              | Inr (Some sm) \<Rightarrow>
                  if sm = [] then Inr ((), emit (Print (No_mapping js_url)) st1)
                  else (case handle_map_url env sm (rurl r)
                               (emit (Print (Found_map js_url sm)) st1) of
                          Inl e \<Rightarrow> Inl e
                        | Inr (sm_json, st3) \<Rightarrow>
                            if \<not> truthy sm_json
                            then Inr ((), emit (Print (Could_not_load js_url)) st3)
                            else recover_sources (remote_source env out_dir (rurl r) sm)
                                   sm_json st3)))"

definition process_entry :: "env \<Rightarrow> string \<Rightarrow> string \<Rightarrow> entry \<Rightarrow> state \<Rightarrow> unit result" where
  "process_entry env out_dir final_page_url e st =
     (case e of
        Inline js_text \<Rightarrow> inline_entry env out_dir final_page_url js_text st
      | Remote js_url \<Rightarrow> remote_entry env out_dir js_url st)"

fun process_entries :: "env \<Rightarrow> string \<Rightarrow> string \<Rightarrow> entry list \<Rightarrow> state \<Rightarrow> unit result" where
  "process_entries env out_dir final_page_url [] st = Inr ((), st)"
| "process_entries env out_dir final_page_url (e # es) st =
     (case process_entry env out_dir final_page_url e st of
        Inl x \<Rightarrow> Inl x
      | Inr (_, st') \<Rightarrow> process_entries env out_dir final_page_url es st')"

text \<open>How a run ends: the last line is reached, \<^verbatim>\<open>sys.exit(n)\<close>, or an exception nothing
  catches.\<close>

datatype outcome = Finished | Exited nat | Uncaught exn

text \<open>The module from top to bottom; \<open>argv\<close> is \<^verbatim>\<open>sys.argv\<close>. Line 31 is outside every
  \<^verbatim>\<open>try\<close>: when \<^verbatim>\<open>os.makedirs\<close> raises there, the run ends before the page is requested.\<close>

definition main :: "env \<Rightarrow> string list \<Rightarrow> outcome \<times> state" where
  "main env argv =
     (if length argv < 3 then (Exited 1, emit (Print Usage) init)
      else
        (let page_url = rstrip is_slash (argv ! 1);
             out_dir = argv ! 2
         in case makedirs env (trace init) out_dir of
              Some e \<Rightarrow> (Uncaught e, init)
            | None \<Rightarrow>
                (case get_text env page_url (emit (MkDirs out_dir) init) of
                   Inl (e, st) \<Rightarrow> (Uncaught e, st)
                 | Inr ((html, final_page_url), st1) \<Rightarrow>
                     (case find_scripts_from_html env html final_page_url of
                        Inl e \<Rightarrow> (Uncaught e, st1)
                      | Inr script_entries \<Rightarrow>
                          (case process_entries env out_dir final_page_url script_entries
                                  (emit (Print (Found_entries (length script_entries)
                                                  final_page_url)) st1) of
                             Inl (e, st) \<Rightarrow> (Uncaught e, st)
                           | Inr (_, st2) \<Rightarrow>
                               (Finished,
                                emit (Print (Summary (processed_maps st2) (saved_files st2)
                                               out_dir)) st2))))))"

section \<open>Auxiliary notions for the statements\<close>

fun first_down :: "(nat \<Rightarrow> 'a option) \<Rightarrow> nat \<Rightarrow> nat \<Rightarrow> 'a option" where
  "first_down f m 0 = (if m = 0 then f 0 else None)"
| "first_down f m (Suc n) =
     (if Suc n < m then None
      else (case f (Suc n) of Some r \<Rightarrow> Some r | None \<Rightarrow> first_down f m n))"

definition rep_max :: "cclass \<Rightarrow> nat option \<Rightarrow> string \<Rightarrow> nat" where
  "rep_max c mx s =
     (case mx of
        None \<Rightarrow> length (takeWhile (in_class c) s)
      | Some b \<Rightarrow> min b (length (takeWhile (in_class c) s)))"

definition scheme_prefixed :: "string \<Rightarrow> bool" where
  "scheme_prefixed s = (bt scheme_re (0, s, []) Some \<noteq> None)"

definition scheme_end :: "string \<Rightarrow> nat" where
  "scheme_end s =
     (let n = length (takeWhile is_lower s)
      in Suc n + min 3 (length (takeWhile is_slash (drop (Suc n) s))))"

text \<open>The state a step ends in, whether it returns or raises.\<close>

definition final :: "'a result \<Rightarrow> state" where
  "final r = (case r of Inl (e, st) \<Rightarrow> st | Inr (x, st) \<Rightarrow> st)"

text \<open>An entry of \<^verbatim>\<open>sourcesContent\<close> as the format has it: a string or \<^verbatim>\<open>null\<close>.\<close>

fun opt_str :: "json \<Rightarrow> bool" where
  "opt_str JNull = True"
| "opt_str (JStr c) = True"
| "opt_str v = False"

subsection \<open>The file system and the requests of a loop\<close>

text \<open>After the effects \<open>tr\<close> the file system lets the file \<open>full\<close> be written: its
  directory has no name, exists or can be made, and the file can then be opened.\<close>

definition fs_accepts :: "env \<Rightarrow> event list \<Rightarrow> string \<Rightarrow> bool" where
  "fs_accepts env tr full =
     (let d = dirname full
      in if d \<noteq> [] \<and> \<not> path_exists env tr d
         then makedirs env tr d = None \<and> open_wb env (tr @ [MkDirs d]) full = None
         else open_wb env tr full = None)"


subsection \<open>The two comment forms, as the specification words them\<close>

definition line_prefix :: string where
  "line_prefix = ''//# sourceMappingURL=''"

definition block_prefix :: string where
  "block_prefix = ''/*# sourceMappingURL=''"

text \<open>The line-comment form at the start of \<open>s\<close>: the value is what follows the prefix up
  to the end of the line, and is not empty.\<close>

definition line_comment :: "string \<Rightarrow> string option" where
  "line_comment s =
     (let v = takeWhile (\<lambda>c. c \<noteq> CHR 0x0A) (drop (length line_prefix) s)
      in if startswith s line_prefix \<and> v \<noteq> [] then Some v else None)"

text \<open>The block-comment form at the start of \<open>s\<close>: the value is the longest non-empty run
  of characters of the line after the prefix that is followed by white space, if any, and
  \<^verbatim>\<open>*/\<close>.\<close>

definition block_comment :: "string \<Rightarrow> string option" where
  "block_comment s =
     (let rest = drop (length block_prefix) s;
          n = length (takeWhile (\<lambda>c. c \<noteq> CHR 0x0A) rest)
      in if startswith s block_prefix
         then map_option (\<lambda>j. take j rest)
                (find (\<lambda>j. startswith (dropWhile is_space (drop j rest)) ''*/'')
                   (rev [1..<Suc n]))
         else None)"

text \<open>The value of the first match: the text is scanned from left to right, and at each
  place the line-comment form is tried before the block-comment form.\<close>

fun first_reference :: "string \<Rightarrow> string option" where
  "first_reference [] = None"
| "first_reference (c # cs) =
     (case line_comment (c # cs) of
        Some v \<Rightarrow> Some v
      | None \<Rightarrow>
          (case block_comment (c # cs) of
             Some v \<Rightarrow> Some v
           | None \<Rightarrow> first_reference cs))"

subsection \<open>A small web to run the program on\<close>

text \<open>
  Six pages of one site, \<^verbatim>\<open>a\<close> to \<^verbatim>\<open>f\<close>, with their scripts and maps. The tables give
  \<^verbatim>\<open>urljoin\<close>, \<^verbatim>\<open>json.loads\<close> and \<^verbatim>\<open>base64.b64decode\<close> on the arguments the runs
  from these pages reach, with the values the libraries return there. The one text such a
  run passes to \<^verbatim>\<open>json.loads\<close> that is not in its table is \<^verbatim>\<open>{\<close>, on which it raises.
  The map \<^verbatim>\<open>h\<close> belongs to no page; its first source is nothing but a prefix.

  The file system has the directory \<^verbatim>\<open>/tmp\<close> and no other at the start, and a directory
  exists once it has been made. As in Python, \<^verbatim>\<open>os.makedirs\<close> raises on the empty path, and \<^verbatim>\<open>open\<close> raises on
  the empty path and on a path that ends with a slash.
\<close>

definition demo_map_a :: json where
  "demo_map_a =
     JObj [(''sources'', JArr [JStr ''webpack:///src/x.js'', JStr ''/tmp/y.js'']),
           (''sourcesContent'', JArr [JStr ''hi'', JStr ''yo''])]"

definition demo_map_c :: json where
  "demo_map_c =
     JObj [(''sources'', JArr [JStr ''src/a.js'', JStr ''src/b.js'']),
           (''sourcesContent'', JArr [JNull, JStr ''B''])]"

definition demo_map_d :: json where
  "demo_map_d =
     JObj [(''sources'', JArr [JStr ''src/a.js''])]"

definition demo_map_f :: json where
  "demo_map_f =
     JObj [(''version'', JNum 3),
           (''sources'', JArr [JStr ''webpack:///src/index.js'', JStr ''src/empty.js'', JStr ''src/gone.js'', JStr ''src/util.js'', JStr ''../lib/up.js'']),
           (''sourcesContent'', JArr [JStr ''console.log(1)'', JStr '''', JNull])]"

definition demo_map_h :: json where
  "demo_map_h =
     JObj [(''sources'', JArr [JStr ''webpack:///'', JStr ''src/b.js'']),
           (''sourcesContent'', JArr [JStr ''x'', JStr ''B''])]"

definition demo_web :: "(string \<times> response) list" where
  "demo_web =
     [(''https://site.example/a'',
       \<lparr>status_code = 200, rtext = ''A'', rurl = ''https://site.example/a''\<rparr>),
      (''https://site.example/b'',
       \<lparr>status_code = 200, rtext = ''B'', rurl = ''https://site.example/b''\<rparr>),
      (''https://site.example/c'',
       \<lparr>status_code = 200, rtext = ''C'', rurl = ''https://site.example/c''\<rparr>),
      (''https://site.example/d'',
       \<lparr>status_code = 200, rtext = ''D'', rurl = ''https://site.example/d''\<rparr>),
      (''https://site.example/e'',
       \<lparr>status_code = 200, rtext = ''E'', rurl = ''https://site.example/e''\<rparr>),
      (''https://site.example/f'',
       \<lparr>status_code = 200, rtext = ''F'', rurl = ''https://site.example/f''\<rparr>),
      (''https://cdn.example/js/d.js'',
       \<lparr>status_code = 200, rtext = ''var d=1;\<newline>//# sourceMappingURL=data:application/json,{\"sources\":[\"src/a.js\"]}'', rurl = ''https://cdn.example/js/d.js''\<rparr>),
      (''https://cdn.example/js/app.js'',
       \<lparr>status_code = 200, rtext = ''console.log(1);\<newline>//# sourceMappingURL=app.js.map\<newline>'', rurl = ''https://cdn.example/js/app.js''\<rparr>),
      (''https://cdn.example/js/app.js.map'',
       \<lparr>status_code = 200, rtext = ''{\"version\":3,\"sources\":[\"webpack:///src/index.js\",\"src/empty.js\",\"src/gone.js\",\"src/util.js\",\"../lib/up.js\"],\"sourcesContent\":[\"console.log(1)\",\"\",null]}'', rurl = ''https://cdn.example/js/app.js.map''\<rparr>),
      (''https://site.example/maps/e.js.map'',
       \<lparr>status_code = 200, rtext = ''{\"sources\":[\"src/a.js\"]}'', rurl = ''https://site.example/maps/e.js.map''\<rparr>),
      (''https://site.example/src/a.js'',
       \<lparr>status_code = 404, rtext = ''Not Found'', rurl = ''https://site.example/src/a.js''\<rparr>),
      (''https://cdn.example/js/src/a.js'',
       \<lparr>status_code = 200, rtext = ''alpha'', rurl = ''https://cdn.example/js/src/a.js''\<rparr>),
      (''https://cdn.example/js/src/gone.js'',
       \<lparr>status_code = 404, rtext = ''Not Found'', rurl = ''https://cdn.example/js/src/gone.js''\<rparr>),
      (''https://cdn.example/js/src/util.js'',
       \<lparr>status_code = 200, rtext = ''export {}'', rurl = ''https://cdn.example/js/src/util.js''\<rparr>),
      (''https://cdn.example/lib/up.js'',
       \<lparr>status_code = 200, rtext = ''up'', rurl = ''https://cdn.example/lib/up.js''\<rparr>),
      (''https://cdn.example/js/src/created.js'',
       \<lparr>status_code = 201, rtext = ''x'', rurl = ''https://cdn.example/js/src/created.js''\<rparr>),
      (''https://cdn.example/js/src/blank.js'',
       \<lparr>status_code = 200, rtext = '' \<newline>'', rurl = ''https://cdn.example/js/src/blank.js''\<rparr>)]"

definition demo_tags :: "(string \<times> (string option \<times> string option) list) list" where
  "demo_tags =
     [(''A'',
       [(None, Some ''var a=1;\<newline>//# sourceMappingURL=data:application/json;base64,eyJzb3VyY2VzIjpbIndlYnBhY2s6Ly8vc3JjL3guanMiLCIvdG1wL3kuanMiXSwic291cmNlc0NvbnRlbnQiOlsiaGkiLCJ5byJdfQ=='')]),
      (''B'',
       [(None, Some ''//# sourceMappingURL=data:application/json,{'')]),
      (''C'',
       [(None, Some ''//# sourceMappingURL=data:application/json,{\"sources\":[\"src/a.js\",\"src/b.js\"],\"sourcesContent\":[null,\"B\"]}'')]),
      (''D'',
       [(Some ''https://cdn.example/js/d.js'', None)]),
      (''E'',
       [(None, Some ''var e=1;\<newline>//# sourceMappingURL=maps/e.js.map'')]),
      (''F'',
       [(Some ''https://cdn.example/js/app.js'', None)])]"

definition demo_joins :: "((string \<times> string) \<times> string) list" where
  "demo_joins =
     [((''https://site.example/d'', ''https://cdn.example/js/d.js''),
       ''https://cdn.example/js/d.js''),
      ((''https://site.example/f'', ''https://cdn.example/js/app.js''),
       ''https://cdn.example/js/app.js''),
      ((''https://cdn.example/js/app.js'', ''app.js.map''),
       ''https://cdn.example/js/app.js.map''),
      ((''https://cdn.example/js/app.js.map'', ''src/gone.js''),
       ''https://cdn.example/js/src/gone.js''),
      ((''https://cdn.example/js/app.js.map'', ''src/util.js''),
       ''https://cdn.example/js/src/util.js''),
      ((''https://cdn.example/js/app.js.map'', ''../lib/up.js''),
       ''https://cdn.example/lib/up.js''),
      ((''https://cdn.example/js/app.js.map'', ''src/created.js''),
       ''https://cdn.example/js/src/created.js''),
      ((''https://cdn.example/js/app.js.map'', ''src/blank.js''),
       ''https://cdn.example/js/src/blank.js''),
      ((''https://site.example/c'', ''src/a.js''),
       ''https://site.example/src/a.js''),
      ((''https://site.example/d'', ''src/a.js''),
       ''https://site.example/src/a.js''),
      ((''https://site.example/maps/e.js.map'', ''src/a.js''),
       ''https://site.example/maps/src/a.js''),
      ((''https://cdn.example/js/d.js'', ''src/a.js''),
       ''https://cdn.example/js/src/a.js''),
      ((''https://site.example/e'', ''maps/e.js.map''),
       ''https://site.example/maps/e.js.map''),
      ((''https://site.example/e'', ''src/a.js''),
       ''https://site.example/src/a.js'')]"

definition demo_b64 :: "(string \<times> string) list" where
  "demo_b64 =
     [(''eyJzb3VyY2VzIjpbIndlYnBhY2s6Ly8vc3JjL3guanMiLCIvdG1wL3kuanMiXSwic291cmNlc0NvbnRlbnQiOlsiaGkiLCJ5byJdfQ=='',
       ''{\"sources\":[\"webpack:///src/x.js\",\"/tmp/y.js\"],\"sourcesContent\":[\"hi\",\"yo\"]}'')]"

definition demo_json :: "(string \<times> json) list" where
  "demo_json =
     [(''{\"sources\":[\"webpack:///src/x.js\",\"/tmp/y.js\"],\"sourcesContent\":[\"hi\",\"yo\"]}'',
       demo_map_a),
      (''{\"sources\":[\"src/a.js\",\"src/b.js\"],\"sourcesContent\":[null,\"B\"]}'',
       demo_map_c),
      (''{\"sources\":[\"src/a.js\"]}'',
       demo_map_d),
      (''{\"version\":3,\"sources\":[\"webpack:///src/index.js\",\"src/empty.js\",\"src/gone.js\",\"src/util.js\",\"../lib/up.js\"],\"sourcesContent\":[\"console.log(1)\",\"\",null]}'',
       demo_map_f),
      (''{\"sources\":[\"webpack:///\",\"src/b.js\"],\"sourcesContent\":[\"x\",\"B\"]}'',
       demo_map_h)]"

definition demo_env :: env where
  "demo_env =
     \<lparr>http_get = map_of demo_web,
      urljoin = (\<lambda>base ref. map_of demo_joins (base, ref)),
      json_loads = map_of demo_json,
      b64decode = map_of demo_b64,
      script_tags = (\<lambda>html. case map_of demo_tags html of None \<Rightarrow> [] | Some tags \<Rightarrow> tags),
      path_exists = (\<lambda>tr p. p = ''/tmp'' \<or> MkDirs p \<in> set tr),
      makedirs = (\<lambda>tr d. if d = [] then Some FileNotFoundError else None),
      open_wb = (\<lambda>tr p. if p = [] then Some FileNotFoundError
                         else if last p = CHR ''/'' then Some IsADirectoryError
                         else None)\<rparr>"

text \<open>The requests, the files written and the lines printed of a trace.\<close>

fun gets :: "event list \<Rightarrow> string list" where
  "gets [] = []"
| "gets (Get u # tr) = u # gets tr"
| "gets (e # tr) = gets tr"

fun writes :: "event list \<Rightarrow> (string \<times> string) list" where
  "writes [] = []"
| "writes (Write p c # tr) = (p, c) # writes tr"
| "writes (e # tr) = writes tr"

fun prints :: "event list \<Rightarrow> log_line list" where
  "prints [] = []"
| "prints (Print l # tr) = l # prints tr"
| "prints (e # tr) = prints tr"

section \<open>The matcher on the two patterns\<close>

lemma first_down_shift:
  "first_down f m (Suc n) =
     (case first_down (\<lambda>j. f (Suc j)) (m - 1) n of
        Some r \<Rightarrow> Some r
      | None \<Rightarrow> if m = 0 then f 0 else None)"
proof (induction n)
  case 0
  then show ?case by (auto split: option.splits)
next
  case (Suc n)
  show ?case
    apply (subst first_down.simps(2))
    apply (subst Suc)
    apply (auto split: option.splits)
    done
qed

lemma rep_max_Cons:
  "in_class c x \<Longrightarrow> mx \<noteq> Some 0 \<Longrightarrow>
     rep_max c mx (x # xs) = Suc (rep_max c (map_option (\<lambda>n. n - 1) mx) xs)"
  by (cases mx) (auto simp: rep_max_def min_def)

lemma rep_max_stop:
  "\<not> (in_class c x \<and> mx \<noteq> Some 0) \<Longrightarrow> rep_max c mx (x # xs) = 0"
  by (cases mx) (auto simp: rep_max_def)

lemma rep_first_down:
  "rep c m mx pos s k = first_down (\<lambda>j. k (pos + j) (drop j s)) m (rep_max c mx s)"
proof (induction s arbitrary: m mx pos)
  case Nil
  then show ?case by (cases mx) (auto simp: rep_max_def)
next
  case (Cons x xs)
  show ?case
  proof (cases "in_class c x \<and> mx \<noteq> Some 0")
    case True
    then show ?thesis
      by (simp add: rep_max_Cons first_down_shift Cons.IH del: first_down.simps
            split: option.splits)
  next
    case False
    then show ?thesis
      using rep_max_stop[OF False] by auto
  qed
qed

lemma first_down_top:
  "(\<And>j. j < n \<Longrightarrow> f j = None) \<Longrightarrow> first_down f m n = (if m \<le> n then f n else None)"
  by (induction n) (auto split: option.splits)

lemma first_down_Some_top:
  "f n = Some r \<Longrightarrow> m \<le> n \<Longrightarrow> first_down f m n = Some r"
  by (cases n) auto

lemma in_class_eqs:
  "in_class Lower = is_lower" "in_class Space = is_space" "in_class Slash = is_slash"
  "in_class Dot = (\<lambda>c. c \<noteq> CHR 0x0A)"
  by (rule ext, simp)+

lemma takeWhile_P_nth: "j < length (takeWhile P xs) \<Longrightarrow> P (xs ! j)"
  by (metis nth_mem set_takeWhileD takeWhile_nth)

lemma lower_not_colon: "is_lower c \<Longrightarrow> c \<noteq> CHR '':''"
  by (auto simp: is_lower_def)

lemma slashes_all:
  "rep Slash 0 mx pos s (\<lambda>p s'. Some (p, s', caps)) =
     Some (pos + rep_max Slash mx s, drop (rep_max Slash mx s) s, caps)"
  by (simp add: rep_first_down first_down_Some_top)

lemma no_colon_inside:
  assumes "j < length (takeWhile is_lower s)"
  shows "take (Suc 0) (drop j s) \<noteq> '':''"
proof -
  have "is_lower (s ! j)" using assms by (rule takeWhile_P_nth)
  moreover have "j < length s"
    using assms length_takeWhile_le[of is_lower s] by linarith
  ultimately show ?thesis
    by (auto simp: take_Suc_conv_app_nth hd_drop_conv_nth dest: lower_not_colon)
qed

lemma scheme_match:
  "bt scheme_re (pos, s, []) Some =
     (if pos = 0 \<and> takeWhile is_lower s \<noteq> [] \<and> startswith (dropWhile is_lower s) '':''
      then Some (scheme_end s, drop (scheme_end s) s, [])
      else None)"
proof (cases "pos = 0")
  case False
  then show ?thesis by (simp add: scheme_re_def)
next
  case True
  let ?n = "length (takeWhile is_lower s)"
  let ?f = "\<lambda>j. bt (Seq (Lit '':'') (Rep Slash 0 (Some 3))) (j, drop j s, []) Some"
  have inside: "\<And>j. j < ?n \<Longrightarrow> ?f j = None"
    by (simp add: no_colon_inside)
  have "bt scheme_re (0, s, []) Some = first_down ?f 1 ?n"
    by (simp add: scheme_re_def rep_max_def in_class_eqs rep_first_down[of _ _ _ 0, simplified])
  also have "\<dots> = (if 1 \<le> ?n then ?f ?n else None)"
    using inside by (rule first_down_top)
  also have "\<dots> = (if takeWhile is_lower s \<noteq> [] \<and> startswith (dropWhile is_lower s) '':''
      then Some (scheme_end s, drop (scheme_end s) s, []) else None)"
    by (auto simp: slashes_all rep_max_def scheme_end_def startswith_def dropWhile_eq_drop
        Suc_le_eq add.commute in_class_eqs Let_def)
  finally show ?thesis using True by simp
qed

lemma re_sub_scheme_later:
  "0 < pos \<Longrightarrow> re_sub_empty scheme_re skip pos s = drop skip s"
proof (induction s arbitrary: skip pos)
  case Nil
  then show ?case by simp
next
  case (Cons c cs)
  then show ?case by (cases skip) (simp_all add: scheme_match)
qed

lemma re_sub_scheme:
  "re_sub_empty scheme_re 0 0 s =
     (if takeWhile is_lower s \<noteq> [] \<and> startswith (dropWhile is_lower s) '':''
      then drop (scheme_end s) s else s)"
proof (cases s)
  case Nil
  then show ?thesis by (simp add: startswith_def)
next
  case (Cons c cs)
  have pos: "0 < scheme_end s" by (simp add: scheme_end_def Let_def)
  show ?thesis
    using pos unfolding Cons
    by (cases "scheme_end (c # cs)") (simp_all add: scheme_match re_sub_scheme_later)
qed

lemma scheme_end_append:
  assumes "l \<noteq> []" "list_all is_lower l"
  shows "scheme_end (l @ CHR '':'' # rest) = Suc (length l) + min 3 (length (takeWhile is_slash rest))"
    and "takeWhile is_lower (l @ CHR '':'' # rest) = l"
    and "dropWhile is_lower (l @ CHR '':'' # rest) = CHR '':'' # rest"
proof -
  have nl: "\<not> is_lower CHR '':''" by (simp add: is_lower_def)
  have all: "\<And>x. x \<in> set l \<Longrightarrow> is_lower x" using assms(2) by (simp add: list_all_iff)
  show t: "takeWhile is_lower (l @ CHR '':'' # rest) = l"
    using nl all by (simp add: takeWhile_append2)
  show "dropWhile is_lower (l @ CHR '':'' # rest) = CHR '':'' # rest"
    using nl all by (simp add: dropWhile_append2)
  show "scheme_end (l @ CHR '':'' # rest) = Suc (length l) + min 3 (length (takeWhile is_slash rest))"
    by (simp add: scheme_end_def t Let_def)
qed

lemma lstrip_drop_slashes:
  "j \<le> length (takeWhile is_slash s) \<Longrightarrow> lstrip is_slash (drop j s) = lstrip is_slash s"
proof (induction s arbitrary: j)
  case Nil
  then show ?case by simp
next
  case (Cons c cs)
  show ?case
  proof (cases j)
    case 0
    then show ?thesis by simp
  next
    case (Suc j')
    with Cons.prems have c: "is_slash c" and le: "j' \<le> length (takeWhile is_slash cs)"
      by (auto split: if_splits)
    from Cons.IH[OF le] c Suc show ?thesis by (simp add: lstrip_def)
  qed
qed

lemma startswith_slash: "startswith s ''/'' = (s \<noteq> [] \<and> hd s = CHR ''/'')"
  by (cases s) (simp_all add: startswith_def)

lemma lstrip_no_slash: "\<not> startswith (lstrip is_slash s) ''/''"
proof (cases "dropWhile is_slash s = []")
  case True
  then show ?thesis by (simp add: startswith_slash lstrip_def)
next
  case False
  then have "\<not> is_slash (hd (dropWhile is_slash s))" by (rule hd_dropWhile)
  then show ?thesis by (simp add: startswith_slash lstrip_def is_slash_def)
qed

lemma strip_no_slash: "\<not> startswith (strip is_slash s) ''/''"
  by (simp add: strip_def lstrip_no_slash)

lemma path_join_no_slash:
  "\<not> startswith a ''/'' \<Longrightarrow> \<not> startswith b ''/'' \<Longrightarrow> \<not> startswith (path_join a b) ''/''"
  by (cases a) (simp_all add: path_join_def startswith_slash)

lemma sanitize_no_slash: "\<not> startswith (sanitize src src_root) ''/''"
  by (simp add: sanitize_def Let_def path_join_no_slash strip_no_slash lstrip_no_slash)

lemma sanitize_scheme:
  assumes "l \<noteq> []" "list_all is_lower l"
  shows "sanitize (l @ CHR '':'' # rest) [] = lstrip is_slash rest"
proof -
  have "re_sub_empty scheme_re 0 0 (l @ CHR '':'' # rest) =
          drop (min 3 (length (takeWhile is_slash rest))) rest"
    using assms by (simp add: re_sub_scheme scheme_end_append startswith_def)
  then show ?thesis
    by (simp add: sanitize_def lstrip_drop_slashes)
qed

lemma sanitize_root:
  "src_root \<noteq> [] \<Longrightarrow>
     sanitize src src_root = path_join (strip is_slash src_root) (sanitize src [])"
  by (simp add: sanitize_def)

section \<open>The path sanitizer\<close>

lemma scheme_prefixed_iff:
  "scheme_prefixed s \<longleftrightarrow>
     (takeWhile is_lower s \<noteq> [] \<and> startswith (dropWhile is_lower s) '':'')"
  by (simp add: scheme_prefixed_def scheme_match)

lemma scheme_prefixed_append:
  "l \<noteq> [] \<Longrightarrow> list_all is_lower l \<Longrightarrow> scheme_prefixed (l @ CHR '':'' # rest)"
  by (simp add: scheme_prefixed_iff scheme_end_append startswith_def)

text \<open>
  Claim C2, as the program has it. For a source \<open>l:rest\<close> whose \<open>l\<close> is a non-empty run of
  lower-case letters (the prefix the pattern of line 182 matches), the sanitizer removes
  that one prefix and every slash after it; the result never starts with a slash; a
  non-empty source root is put in front with its own slashes trimmed; and
  \<^verbatim>\<open>webpack:///src/x.js\<close> with an empty root gives \<^verbatim>\<open>src/x.js\<close>. A further prefix inside
  \<open>rest\<close> or in the source root stays.
\<close>

theorem sanitize_strips_one_scheme:
  assumes "l \<noteq> []" and "list_all is_lower l"
  shows "scheme_prefixed (l @ CHR '':'' # rest)
       \<and> sanitize (l @ CHR '':'' # rest) [] = lstrip is_slash rest
       \<and> \<not> startswith (sanitize (l @ CHR '':'' # rest) src_root) ''/''
       \<and> (src_root \<noteq> [] \<longrightarrow>
            sanitize (l @ CHR '':'' # rest) src_root =
              path_join (strip is_slash src_root) (lstrip is_slash rest))
       \<and> sanitize ''webpack:///src/x.js'' [] = ''src/x.js''"
proof -
  have w: "sanitize ''webpack:///src/x.js'' [] = ''src/x.js''"
    by code_simp
  show ?thesis
    using assms w
    by (simp add: scheme_prefixed_append sanitize_scheme sanitize_no_slash sanitize_root)
qed

text \<open>The theorem at \<^verbatim>\<open>webpack:///src/x.js\<close> with the source root \<^verbatim>\<open>/app/\<close>.\<close>

theorem sanitize_strips_one_scheme_witness:
  "''webpack'' \<noteq> [] \<and> list_all is_lower ''webpack''
   \<and> scheme_prefixed ''webpack:///src/x.js''
   \<and> sanitize ''webpack:///src/x.js'' ''/app/'' = ''app/src/x.js''"
proof -
  have h1: "''webpack'' \<noteq> []" by simp
  have h2: "list_all is_lower ''webpack''" by code_simp
  have e1: "path_join (strip is_slash ''/app/'') (lstrip is_slash ''///src/x.js'') = ''app/src/x.js''"
    by code_simp
  show ?thesis
    using h1 h2 e1 sanitize_strips_one_scheme[OF h1 h2, of "''///src/x.js''" "''/app/''"]
    by simp
qed

text \<open>
  Claim C2 as stated fails: the result can begin with a prefix of the same form. Only the
  first prefix of the source is removed, and none of the source root.
\<close>

theorem sanitize_leaves_scheme_counterexample:
  "scheme_prefixed ''webpack:///c:/src/x.js''
   \<and> sanitize ''webpack:///c:/src/x.js'' [] = ''c:/src/x.js''
   \<and> scheme_prefixed ''c:/src/x.js''
   \<and> sanitize ''webpack:///src/x.js'' ''webpack:///'' = ''webpack:/src/x.js''
   \<and> scheme_prefixed ''webpack:/src/x.js''"
  by code_simp

section \<open>The steps of the loops\<close>

lemma final_simps [simp]: "final (Inl (e, st)) = st" "final (Inr (x, st)) = st"
  by (simp_all add: final_def)

lemma emit_simps [simp]:
  "trace (emit e st) = trace st @ [e]"
  "saved_files (emit e st) = saved_files st"
  "processed_maps (emit e st) = processed_maps st"
  by (simp_all add: emit_def)

lemma gets_append [simp]: "gets (a @ b) = gets a @ gets b"
  by (induction a rule: gets.induct) simp_all

lemma writes_append [simp]: "writes (a @ b) = writes a @ writes b"
  by (induction a rule: writes.induct) simp_all

lemma prints_append [simp]: "prints (a @ b) = prints a @ prints b"
  by (induction a rule: prints.induct) simp_all

lemma ensure_parent_trace:
  "\<exists>new. trace (final (ensure_parent env full st)) = trace st @ new \<and> gets new = []
         \<and> writes new = [] \<and> prints new = []"
  by (simp add: ensure_parent_def Let_def split: option.splits)

lemma ensure_parent_fields [simp]:
  "saved_files (final (ensure_parent env full st)) = saved_files st"
  "processed_maps (final (ensure_parent env full st)) = processed_maps st"
  "gets (trace (final (ensure_parent env full st))) = gets (trace st)"
  "writes (trace (final (ensure_parent env full st))) = writes (trace st)"
  "prints (trace (final (ensure_parent env full st))) = prints (trace st)"
  by (simp_all add: ensure_parent_def Let_def split: option.splits)

text \<open>Saving a string under a path that is a string, when the file system lets the file be
  written and when it does not.\<close>

lemma save_file_accepted:
  assumes "fs_accepts env (trace st) (path_join out_dir p)"
  shows "\<exists>st1. save_file env out_dir (JStr p) (JStr c) st
                 = Inr ((), emit (Write (path_join out_dir p) c) st1)
             \<and> saved_files st1 = saved_files st \<and> processed_maps st1 = processed_maps st
             \<and> gets (trace st1) = gets (trace st) \<and> writes (trace st1) = writes (trace st)
             \<and> prints (trace st1) = prints (trace st)"
proof (cases "dirname (path_join out_dir p) \<noteq> []
              \<and> \<not> path_exists env (trace st) (dirname (path_join out_dir p))")
  case True
  then show ?thesis using assms
    by (intro exI[of _ "emit (MkDirs (dirname (path_join out_dir p))) st"])
       (simp add: save_file_def ensure_parent_def fs_accepts_def Let_def)
next
  case False
  then show ?thesis using assms
    by (intro exI[of _ st]) (auto simp: save_file_def ensure_parent_def fs_accepts_def Let_def)
qed

lemma save_file_refused:
  assumes "\<not> fs_accepts env (trace st) (path_join out_dir p)"
  shows "\<exists>e st1. save_file env out_dir (JStr p) (JStr c) st = Inl (e, st1)
             \<and> saved_files st1 = saved_files st \<and> processed_maps st1 = processed_maps st
             \<and> gets (trace st1) = gets (trace st) \<and> writes (trace st1) = writes (trace st)
             \<and> prints (trace st1) = prints (trace st)"
proof (cases "dirname (path_join out_dir p) \<noteq> []
              \<and> \<not> path_exists env (trace st) (dirname (path_join out_dir p))")
  case True
  note d = True
  show ?thesis
  proof (cases "makedirs env (trace st) (dirname (path_join out_dir p))")
    case None
    then obtain e where "open_wb env (trace st @ [MkDirs (dirname (path_join out_dir p))])
                           (path_join out_dir p) = Some e"
      using assms d by (auto simp: fs_accepts_def Let_def)
    then show ?thesis using d None
      by (intro exI[of _ e] exI[of _ "emit (MkDirs (dirname (path_join out_dir p))) st"])
         (simp add: save_file_def ensure_parent_def Let_def)
  next
    case (Some e)
    then show ?thesis using d
      by (intro exI[of _ e] exI[of _ st]) (simp add: save_file_def ensure_parent_def Let_def)
  qed
next
  case False
  then obtain e where "open_wb env (trace st) (path_join out_dir p) = Some e"
    using assms by (auto simp: fs_accepts_def Let_def)
  then show ?thesis using False
    by (intro exI[of _ e] exI[of _ st]) (auto simp: save_file_def ensure_parent_def Let_def)
qed

lemma embedded_content_arr:
  "embedded_content (JArr cs) i =
     Inr (if i < length cs \<and> cs ! i \<noteq> JNull then Some (cs ! i) else None)"
  by (cases cs) (simp_all add: embedded_content_def py_len_def py_index_def)

lemma cleaned_path_str: "cleaned_path (JStr s) (JStr r) = Inr (sanitize s r)"
  by (simp add: cleaned_path_def)

lemma inline_filename_str:
  "inline_filename (JStr s) (JStr r) = Inr (JStr (if r = [] then s else path_join r s))"
  by (simp add: inline_filename_def)



lemma try_fetch_trace:
  "trace (snd (try_fetch_source_by_url env src base st)) =
     trace st @ (case candidate_url env base src of None \<Rightarrow> [] | Some u \<Rightarrow> [Get u])"
  by (simp add: try_fetch_source_by_url_def Let_def split: option.splits)

lemma try_fetch_fields [simp]:
  "saved_files (snd (try_fetch_source_by_url env src base st)) = saved_files st"
  "processed_maps (snd (try_fetch_source_by_url env src base st)) = processed_maps st"
  by (simp_all add: try_fetch_source_by_url_def Let_def split: option.splits)

lemma try_fetch_result:
  "fst (try_fetch_source_by_url env src base st) = Some t \<longleftrightarrow>
     (\<exists>u r. candidate_url env base src = Some u \<and> http_get env u = Some r
            \<and> status_code r = 200 \<and> strip is_space (rtext r) \<noteq> [] \<and> rtext r = t)"
  by (auto simp: try_fetch_source_by_url_def Let_def split: option.splits)

lemma try_fetch_nonblank:
  "fst (try_fetch_source_by_url env src base st) = Some t \<Longrightarrow> strip is_space t \<noteq> []"
  by (auto simp: try_fetch_result)

lemma save_file_trace:
  "\<exists>new. trace (final (save_file env out_dir path content st)) = trace st @ new
         \<and> gets new = [] \<and> prints new = []
         \<and> (writes new = [] \<or>
            (\<exists>p c. path = JStr p \<and> writes new = [(path_join out_dir p, c)]
                  \<and> (content = JStr c \<or> (c = [] \<and> (\<forall>c'. content \<noteq> JStr c')))))"
proof (cases path)
  case (JStr p)
  let ?full = "path_join out_dir p"
  obtain new0 where n0: "trace (final (ensure_parent env ?full st)) = trace st @ new0"
    "gets new0 = []" "writes new0 = []" "prints new0 = []"
    using ensure_parent_trace by blast
  show ?thesis
  proof (cases "ensure_parent env ?full st")
    case (Inl a)
    then show ?thesis using JStr n0 by (cases a) (simp add: save_file_def Let_def)
  next
    case (Inr b)
    obtain u st1 where b: "b = (u, st1)" by (cases b)
    have t1: "trace st1 = trace st @ new0" using n0(1) Inr b by simp
    show ?thesis
    proof (cases "open_wb env (trace st1) ?full")
      case (Some e)
      then show ?thesis using JStr Inr b t1 n0 by (simp add: save_file_def Let_def)
    next
      case None
      then show ?thesis using JStr Inr b t1 n0
        by (cases content) (simp_all add: save_file_def Let_def)
    qed
  qed
qed (simp_all add: save_file_def)

lemma save_file_fields:
  "saved_files (final (save_file env out_dir path content st)) = saved_files st"
  "processed_maps (final (save_file env out_dir path content st)) = processed_maps st"
proof -
  have "saved_files (final (save_file env out_dir path content st)) = saved_files st
      \<and> processed_maps (final (save_file env out_dir path content st)) = processed_maps st"
  proof (cases path)
    case (JStr p)
    let ?full = "path_join out_dir p"
    have f: "saved_files (final (ensure_parent env ?full st)) = saved_files st"
      "processed_maps (final (ensure_parent env ?full st)) = processed_maps st"
      by simp_all
    show ?thesis
    proof (cases "ensure_parent env ?full st")
      case (Inl a)
      then show ?thesis using JStr f by (cases a) (simp add: save_file_def Let_def)
    next
      case (Inr b)
      obtain u st1 where b: "b = (u, st1)" by (cases b)
      show ?thesis using JStr Inr b f
        by (cases "open_wb env (trace st1) ?full"; cases content)
           (simp_all add: save_file_def Let_def)
    qed
  qed (simp_all add: save_file_def)
  then show "saved_files (final (save_file env out_dir path content st)) = saved_files st"
    "processed_maps (final (save_file env out_dir path content st)) = processed_maps st"
    by simp_all
qed

lemma remote_content_cases:
  "remote_content env js sm contents i src st =
     (case embedded_content contents i of
        Inl e \<Rightarrow> Inl (e, st)
      | Inr (Some c) \<Rightarrow> Inr (Some c, st)
      | Inr None \<Rightarrow>
          (case map_url_guess env js sm of
             None \<Rightarrow> Inl (UrlValueError, st)
           | Some base \<Rightarrow>
               Inr (map_option JStr (fst (try_fetch_source_by_url env src base st)),
                    snd (try_fetch_source_by_url env src base st))))"
  by (simp add: remote_content_def split: sum.splits option.splits prod.splits)

lemma inline_content_cases:
  "inline_content env page contents i src st =
     (case embedded_content contents i of
        Inl e \<Rightarrow> Inl (e, st)
      | Inr (Some c) \<Rightarrow> Inr (Some c, st)
      | Inr None \<Rightarrow>
          Inr (map_option JStr (fst (try_fetch_source_by_url env src page st)),
               snd (try_fetch_source_by_url env src page st)))"
  by (simp add: inline_content_def split: sum.splits option.splits prod.splits)

lemma trace_saved_files_update [simp]:
  "trace (st\<lparr>saved_files := n\<rparr>) = trace st"
  "processed_maps (st\<lparr>saved_files := n\<rparr>) = processed_maps st"
  by simp_all

text \<open>The end of a step of the remote loop: the file is saved and the line printed.\<close>

lemma remote_save_new:
  "\<exists>new. trace (final (case save_file env out_dir (JStr q) v st1 of
                         Inl e \<Rightarrow> Inl e
                       | Inr (_, st2) \<Rightarrow>
                           Inr ((), emit (Print (Saved q))
                                      (st2\<lparr>saved_files := saved_files st2 + 1\<rparr>))))
          = trace st1 @ new
     \<and> gets new = []
     \<and> (writes new = [] \<or>
         (\<exists>c. writes new = [(path_join out_dir q, c)]
            \<and> (v = JStr c \<or> (c = [] \<and> (\<forall>c'. v \<noteq> JStr c')))))"
proof -
  obtain new where n: "trace (final (save_file env out_dir (JStr q) v st1)) = trace st1 @ new"
    "gets new = []"
    "writes new = [] \<or> (\<exists>p c. JStr q = JStr p \<and> writes new = [(path_join out_dir p, c)]
                  \<and> (v = JStr c \<or> (c = [] \<and> (\<forall>c'. v \<noteq> JStr c'))))"
    using save_file_trace[of env out_dir "JStr q" v st1] by blast
  show ?thesis
  proof (cases "save_file env out_dir (JStr q) v st1")
    case (Inl a)
    then show ?thesis using n by (cases a) (intro exI[of _ new], auto)
  next
    case (Inr b)
    then show ?thesis using n
      by (cases b) (intro exI[of _ "new @ [Print (Saved q)]"], auto)
  qed
qed

text \<open>What a step of the remote loop adds to the trace.\<close>

lemma cleaned_path_Inr:
  "cleaned_path src root = Inr q \<Longrightarrow>
     \<exists>s. src = JStr s \<and> q = sanitize s (case root of JStr r \<Rightarrow> r | _ \<Rightarrow> [])"
  by (cases src; cases root) (auto simp: cleaned_path_def split: if_splits)

lemma remote_source_new:
  "\<exists>new. trace (final (remote_source env out_dir js sm root contents i src st)) = trace st @ new
     \<and> (writes new = [] \<or>
         (\<exists>q c. cleaned_path src root = Inr q \<and> writes new = [(path_join out_dir q, c)]
            \<and> (embedded_content contents i = Inr (Some (JStr c))
               \<or> (embedded_content contents i = Inr None \<and> strip is_space c \<noteq> [])
               \<or> (c = [] \<and> (\<exists>v. embedded_content contents i = Inr (Some v)
                                  \<and> (\<forall>c'. v \<noteq> JStr c'))))))
     \<and> (gets new = [] \<or>
         (\<exists>base s u. embedded_content contents i = Inr None \<and> map_url_guess env js sm = Some base
            \<and> src = JStr s \<and> urljoin env base s = Some u \<and> gets new = [u]))"
proof (cases "cleaned_path src root")
  case (Inl e)
  then show ?thesis by (simp add: remote_source_def)
next
  case (Inr q)
  note q = Inr
  obtain s0 where s0: "src = JStr s0" using q by (auto dest: cleaned_path_Inr)
  show ?thesis
  proof (cases "embedded_content contents i")
    case (Inl e)
    then show ?thesis using q by (simp add: remote_source_def remote_content_cases)
  next
    case (Inr emb)
    note emb = Inr
    show ?thesis
    proof (cases emb)
      case (Some v)
      obtain new where n:
        "trace (final (case save_file env out_dir (JStr q) v st of
                         Inl e \<Rightarrow> Inl e
                       | Inr (_, st2) \<Rightarrow>
                           Inr ((), emit (Print (Saved q))
                                      (st2\<lparr>saved_files := saved_files st2 + 1\<rparr>))))
          = trace st @ new"
        "gets new = []"
        "writes new = [] \<or> (\<exists>c. writes new = [(path_join out_dir q, c)]
            \<and> (v = JStr c \<or> (c = [] \<and> (\<forall>c'. v \<noteq> JStr c'))))"
        using remote_save_new[where env = env and out_dir = out_dir and q = q and v = v and ?st1.0 = st] by blast
      have r: "remote_source env out_dir js sm root contents i src st =
            (case save_file env out_dir (JStr q) v st of
                         Inl e \<Rightarrow> Inl e
                       | Inr (_, st2) \<Rightarrow>
                           Inr ((), emit (Print (Saved q))
                                      (st2\<lparr>saved_files := saved_files st2 + 1\<rparr>)))"
        using q emb Some by (simp add: remote_source_def remote_content_cases)
      show ?thesis
        unfolding r using n q emb Some by (intro exI[of _ new]) auto
    next
      case None
      show ?thesis
      proof (cases "map_url_guess env js sm")
        case None
        then show ?thesis using q emb \<open>emb = None\<close>
          by (simp add: remote_source_def remote_content_cases)
      next
        case (Some base)
        let ?f = "try_fetch_source_by_url env src base st"
        let ?g = "case candidate_url env base src of None \<Rightarrow> [] | Some u \<Rightarrow> [Get u]"
        have t: "trace (snd ?f) = trace st @ ?g" by (rule try_fetch_trace)
        have g: "gets ?g = [] \<or> (\<exists>u. urljoin env base s0 = Some u \<and> gets ?g = [u])"
          "writes ?g = []"
          using s0 by (simp_all add: candidate_url_def split: option.splits)
        show ?thesis
        proof (cases "fst ?f")
          case None
          have r: "remote_source env out_dir js sm root contents i src st =
                     Inr ((), emit (Print (Could_not_obtain src)) (snd ?f))"
            using q emb \<open>emb = None\<close> Some None
            by (simp add: remote_source_def remote_content_cases)
          show ?thesis
            unfolding r using t g emb \<open>emb = None\<close> Some s0
            by (intro exI[of _ "?g @ [Print (Could_not_obtain src)]"]) auto
        next
          case (Some c)
          note c = Some
          obtain new where n:
            "trace (final (case save_file env out_dir (JStr q) (JStr c) (snd ?f) of
                         Inl e \<Rightarrow> Inl e
                       | Inr (_, st2) \<Rightarrow>
                           Inr ((), emit (Print (Saved q))
                                      (st2\<lparr>saved_files := saved_files st2 + 1\<rparr>))))
              = trace (snd ?f) @ new"
            "gets new = []"
            "writes new = [] \<or> (\<exists>c'. writes new = [(path_join out_dir q, c')]
                \<and> (JStr c = JStr c' \<or> (c' = [] \<and> (\<forall>c''. JStr c \<noteq> JStr c''))))"
            using remote_save_new[where env = env and out_dir = out_dir and q = q and v = "JStr c" and ?st1.0 = "snd ?f"] by blast
          have r: "remote_source env out_dir js sm root contents i src st =
                (case save_file env out_dir (JStr q) (JStr c) (snd ?f) of
                         Inl e \<Rightarrow> Inl e
                       | Inr (_, st2) \<Rightarrow>
                           Inr ((), emit (Print (Saved q))
                                      (st2\<lparr>saved_files := saved_files st2 + 1\<rparr>)))"
            using q emb \<open>emb = None\<close> \<open>map_url_guess env js sm = Some base\<close> c
            by (simp add: remote_source_def remote_content_cases)
          have nb: "strip is_space c \<noteq> []" using c by (rule try_fetch_nonblank)
          show ?thesis
            unfolding r using n t g emb \<open>emb = None\<close> \<open>map_url_guess env js sm = Some base\<close> q nb s0
            by (intro exI[of _ "?g @ new"]) auto
        qed
      qed
    qed
  qed
qed

text \<open>The end of a step of the inline loop: the file is saved and counted.\<close>

lemma inline_save_new:
  "\<exists>new. trace (final (case save_file env out_dir filename v st1 of
                         Inl e \<Rightarrow> Inl e
                       | Inr (_, st2) \<Rightarrow>
                           Inr ((), st2\<lparr>saved_files := saved_files st2 + 1\<rparr>)))
          = trace st1 @ new
     \<and> gets new = [] \<and> prints new = []
     \<and> (writes new = [] \<or>
         (\<exists>f c. filename = JStr f \<and> writes new = [(path_join out_dir f, c)]
            \<and> (v = JStr c \<or> (c = [] \<and> (\<forall>c'. v \<noteq> JStr c')))))"
proof -
  obtain new where n: "trace (final (save_file env out_dir filename v st1)) = trace st1 @ new"
    "gets new = []" "prints new = []"
    "writes new = [] \<or> (\<exists>p c. filename = JStr p \<and> writes new = [(path_join out_dir p, c)]
                  \<and> (v = JStr c \<or> (c = [] \<and> (\<forall>c'. v \<noteq> JStr c'))))"
    using save_file_trace[of env out_dir filename v st1] by blast
  show ?thesis
  proof (cases "save_file env out_dir filename v st1")
    case (Inl a)
    then show ?thesis using n by (cases a) (intro exI[of _ new], auto)
  next
    case (Inr b)
    then show ?thesis using n by (cases b) (intro exI[of _ new], auto)
  qed
qed

text \<open>What a step of the inline loop adds to the trace: it prints nothing.\<close>

lemma inline_source_new:
  "\<exists>new. trace (final (inline_source env out_dir page root contents i src st)) = trace st @ new
     \<and> prints new = []
     \<and> (writes new = [] \<or>
         (\<exists>f c. inline_filename src root = Inr (JStr f) \<and> writes new = [(path_join out_dir f, c)]
            \<and> (embedded_content contents i = Inr (Some (JStr c))
               \<or> (embedded_content contents i = Inr None \<and> strip is_space c \<noteq> [])
               \<or> (c = [] \<and> (\<exists>v. embedded_content contents i = Inr (Some v)
                                  \<and> (\<forall>c'. v \<noteq> JStr c'))))))
     \<and> (gets new = [] \<or>
         (\<exists>u. embedded_content contents i = Inr None
            \<and> candidate_url env page src = Some u \<and> gets new = [u]))"
proof (cases "inline_filename src root")
  case (Inl e)
  then show ?thesis by (simp add: inline_source_def)
next
  case (Inr filename)
  note q = Inr
  show ?thesis
  proof (cases "embedded_content contents i")
    case (Inl e)
    then show ?thesis using q by (simp add: inline_source_def inline_content_cases)
  next
    case (Inr emb)
    note emb = Inr
    show ?thesis
    proof (cases emb)
      case (Some v)
      obtain new where n:
        "trace (final (case save_file env out_dir filename v st of
                         Inl e \<Rightarrow> Inl e
                       | Inr (_, st2) \<Rightarrow>
                           Inr ((), st2\<lparr>saved_files := saved_files st2 + 1\<rparr>)))
          = trace st @ new"
        "gets new = []" "prints new = []"
        "writes new = [] \<or> (\<exists>f c. filename = JStr f \<and> writes new = [(path_join out_dir f, c)]
            \<and> (v = JStr c \<or> (c = [] \<and> (\<forall>c'. v \<noteq> JStr c'))))"
        using inline_save_new[where env = env and out_dir = out_dir and filename = filename
            and v = v and ?st1.0 = st] by blast
      have r: "inline_source env out_dir page root contents i src st =
            (case save_file env out_dir filename v st of
                         Inl e \<Rightarrow> Inl e
                       | Inr (_, st2) \<Rightarrow>
                           Inr ((), st2\<lparr>saved_files := saved_files st2 + 1\<rparr>))"
        using q emb Some by (simp add: inline_source_def inline_content_cases)
      show ?thesis
        unfolding r using n q emb Some by (intro exI[of _ new]) auto
    next
      case None
      let ?f = "try_fetch_source_by_url env src page st"
      let ?g = "case candidate_url env page src of None \<Rightarrow> [] | Some u \<Rightarrow> [Get u]"
      have t: "trace (snd ?f) = trace st @ ?g" by (rule try_fetch_trace)
      have g: "gets ?g = [] \<or> (\<exists>u. candidate_url env page src = Some u \<and> gets ?g = [u])"
        "writes ?g = []" "prints ?g = []"
        by (simp_all split: option.splits)
      show ?thesis
      proof (cases "fst ?f")
        case None
        have r: "inline_source env out_dir page root contents i src st = Inr ((), snd ?f)"
          using q emb \<open>emb = None\<close> None
          by (simp add: inline_source_def inline_content_cases)
        show ?thesis
          unfolding r using t g emb \<open>emb = None\<close>
          by (intro exI[of _ "?g"]) auto
      next
        case (Some c)
        note c = Some
        obtain new where n:
          "trace (final (case save_file env out_dir filename (JStr c) (snd ?f) of
                       Inl e \<Rightarrow> Inl e
                     | Inr (_, st2) \<Rightarrow>
                         Inr ((), st2\<lparr>saved_files := saved_files st2 + 1\<rparr>)))
            = trace (snd ?f) @ new"
          "gets new = []" "prints new = []"
          "writes new = [] \<or> (\<exists>f c'. filename = JStr f \<and> writes new = [(path_join out_dir f, c')]
              \<and> (JStr c = JStr c' \<or> (c' = [] \<and> (\<forall>c''. JStr c \<noteq> JStr c''))))"
          using inline_save_new[where env = env and out_dir = out_dir and filename = filename
              and v = "JStr c" and ?st1.0 = "snd ?f"] by blast
        have r: "inline_source env out_dir page root contents i src st =
              (case save_file env out_dir filename (JStr c) (snd ?f) of
                       Inl e \<Rightarrow> Inl e
                     | Inr (_, st2) \<Rightarrow>
                         Inr ((), st2\<lparr>saved_files := saved_files st2 + 1\<rparr>))"
          using q emb \<open>emb = None\<close> c
          by (simp add: inline_source_def inline_content_cases)
        have nb: "strip is_space c \<noteq> []" using c by (rule try_fetch_nonblank)
        show ?thesis
          unfolding r using n t g emb \<open>emb = None\<close> q nb
          by (intro exI[of _ "?g @ new"]) auto
      qed
    qed
  qed
qed

text \<open>A property of what every step adds holds of what the loop adds.\<close>

lemma for_each_new:
  assumes step: "\<And>i x st. x \<in> set xs \<Longrightarrow>
            \<exists>new. trace (final (body i x st)) = trace st @ new
                \<and> length (writes new) \<le> 1 \<and> list_all W (writes new) \<and> list_all G (gets new)
                \<and> list_all L (prints new)"
  shows "\<exists>new. trace (final (for_each body i xs st)) = trace st @ new
           \<and> length (writes new) \<le> length xs \<and> list_all W (writes new)
           \<and> list_all G (gets new) \<and> list_all L (prints new)"
  using step
proof (induction xs arbitrary: i st)
  case Nil
  then show ?case by simp
next
  case (Cons x xs)
  obtain new1 where n1: "trace (final (body i x st)) = trace st @ new1"
    "length (writes new1) \<le> 1" "list_all W (writes new1)" "list_all G (gets new1)"
    "list_all L (prints new1)"
    using Cons.prems[of x i st] by auto
  show ?case
  proof (cases "body i x st")
    case (Inl a)
    then show ?thesis using n1 by (cases a) (intro exI[of _ new1], auto)
  next
    case (Inr b)
    obtain u st' where b: "b = (u, st')" by (cases b)
    have "\<And>i x st. x \<in> set xs \<Longrightarrow>
            \<exists>new. trace (final (body i x st)) = trace st @ new
                \<and> length (writes new) \<le> 1 \<and> list_all W (writes new) \<and> list_all G (gets new)
                \<and> list_all L (prints new)"
      using Cons.prems by simp
    from Cons.IH[OF this, of "Suc i" st']
    obtain new2 where n2: "trace (final (for_each body (Suc i) xs st')) = trace st' @ new2"
      "length (writes new2) \<le> length xs" "list_all W (writes new2)" "list_all G (gets new2)"
      "list_all L (prints new2)"
      by auto
    show ?thesis
      using Inr b n1 n2 by (intro exI[of _ "new1 @ new2"]) auto
  qed
qed

lemma dict_get_obj: "dict_get j k d = Inr v \<Longrightarrow> \<exists>v'. dict_get j k' d' = Inr v'"
  by (cases j) (simp_all add: dict_get_def)

lemma recover_sources_eq:
  assumes "dict_get sm_json ''sourceRoot'' (JStr []) = Inr root"
      and "dict_get sm_json ''sources'' (JArr []) = Inr (JArr srcs)"
      and "dict_get sm_json ''sourcesContent'' (JArr []) = Inr contents"
  shows "recover_sources body sm_json st =
           for_each (body root contents) 0 srcs (st\<lparr>processed_maps := processed_maps st + 1\<rparr>)"
  using assms by (simp add: recover_sources_def py_iter_def Let_def)

lemma path_join_prefix: "\<not> startswith b ''/'' \<Longrightarrow> prefix a (path_join a b)"
  by (simp add: path_join_def)

lemma embedded_in_contents:
  "embedded_content (JArr cs) i = Inr (Some v) \<Longrightarrow> v \<in> set cs \<and> v \<noteq> JNull"
  by (auto simp: embedded_content_arr split: if_splits)

lemma for_each_append:
  "for_each body i (xs @ ys) st =
     (case for_each body i xs st of
        Inl e \<Rightarrow> Inl e
      | Inr (_, st') \<Rightarrow> for_each body (i + length xs) ys st')"
  by (induction xs arbitrary: i st) (auto split: sum.splits)



lemma opt_str_cases: "opt_str v \<Longrightarrow> v \<noteq> JNull \<Longrightarrow> \<exists>c. v = JStr c"
  by (cases v) simp_all

lemma embedded_typed:
  assumes "list_all opt_str cs" and "embedded_content (JArr cs) i = Inr (Some v)"
  shows "\<exists>c. v = JStr c \<and> JStr c \<in> set cs"
proof -
  have "v \<in> set cs" "v \<noteq> JNull" using embedded_in_contents[OF assms(2)] by simp_all
  moreover have "opt_str v" using assms(1) \<open>v \<in> set cs\<close> by (simp add: list_all_iff)
  ultimately show ?thesis using opt_str_cases by blast
qed

text \<open>A source without content in the loop of a remote script: the line is printed and the
  loop goes on with the next source.\<close>

lemma remote_skip_continues:
  assumes "embedded_content contents i = Inr None"
      and "map_url_guess env js sm = Some base"
      and "fst (try_fetch_source_by_url env (JStr s) base st) = None"
  shows "for_each (remote_source env out_dir js sm (JStr r) contents) i (JStr s # rest) st =
           for_each (remote_source env out_dir js sm (JStr r) contents) (Suc i) rest
             (emit (Print (Could_not_obtain (JStr s)))
                (snd (try_fetch_source_by_url env (JStr s) base st)))"
  using assms by (simp add: remote_source_def remote_content_cases cleaned_path_str)

text \<open>The same in the loop of an inline script: the loop goes on, nothing is printed.\<close>

lemma inline_skip_continues:
  assumes "embedded_content contents i = Inr None"
      and "fst (try_fetch_source_by_url env (JStr s) page st) = None"
  shows "for_each (inline_source env out_dir page (JStr r) contents) i (JStr s # rest) st =
           for_each (inline_source env out_dir page (JStr r) contents) (Suc i) rest
             (snd (try_fetch_source_by_url env (JStr s) page st))"
  using assms by (simp add: inline_source_def inline_content_cases inline_filename_str)

lemma handle_map_url_data_invalid_json:
  assumes "startswith ref ''data:''" and "split_comma ref = Some (header, payload)"
      and "\<not> contains ''base64'' header" and "json_loads env payload = None"
  shows "handle_map_url env ref base st = Inl (JSONDecodeError, st)"
  using assms by (simp add: handle_map_url_def)

lemma handle_map_url_data_invalid_base64:
  assumes "startswith ref ''data:''" and "split_comma ref = Some (header, payload)"
      and "contains ''base64'' header" and "b64decode env payload = None"
  shows "handle_map_url env ref base st = Inl (Base64Error, st)"
  using assms by (simp add: handle_map_url_def)

lemma handle_map_url_data_no_comma:
  assumes "startswith ref ''data:''" and "split_comma ref = None"
  shows "handle_map_url env ref base st = Inr (JNull, st)"
  using assms by (simp add: handle_map_url_def)










lemma emit_prefix: "prefix (trace st) (trace (emit e st))"
  by simp





lemma first_down_find:
  "first_down f m n =
     (case find (\<lambda>j. f j \<noteq> None) (rev [m..<Suc n]) of None \<Rightarrow> None | Some j \<Rightarrow> f j)"
proof (induction n)
  case 0
  then show ?case by (cases m) (auto split: option.splits)
next
  case (Suc n)
  show ?case
  proof (cases "Suc n < m")
    case True
    then show ?thesis by simp
  next
    case False
    then have "rev [m..<Suc (Suc n)] = Suc n # rev [m..<Suc n]" by simp
    then show ?thesis using False Suc by (auto split: option.splits)
  qed
qed

lemma first_down_map:
  "map_option g (first_down f m n) = first_down (\<lambda>j. map_option g (f j)) m n"
  by (induction n) (auto split: option.splits)

lemma first_down_cong:
  "(\<And>j. j \<le> n \<Longrightarrow> f j = g j) \<Longrightarrow> first_down f m n = first_down g m n"
  by (induction n) (auto split: option.splits)

lemma dropWhile_end: "dropWhile P s = [] \<or> \<not> P (hd (dropWhile P s))"
  using hd_dropWhile[of P s] by blast

lemma line_tail:
  "bt (Seq (Group ''url'' (Rep Dot 1 None)) Eol) (p, s, []) Some =
     (let v = takeWhile (\<lambda>c. c \<noteq> CHR 0x0A) s
      in if v \<noteq> [] then Some (p + length v, drop (length v) s, [(''url'', v)]) else None)"
proof -
  let ?P = "\<lambda>c. c \<noteq> CHR 0x0A"
  let ?n = "length (takeWhile ?P s)"
  let ?f = "\<lambda>j. bt Eol (p + j, drop j s, [(''url'', take j s)]) Some"
  have eq: "bt (Seq (Group ''url'' (Rep Dot 1 None)) Eol) (p, s, []) Some = first_down ?f 1 ?n"
    by (simp add: rep_first_down rep_max_def in_class_eqs, rule first_down_cong, simp)
  have e: "drop ?n s = [] \<or> hd (drop ?n s) = CHR 0x0A"
    using dropWhile_end[of ?P s] by (simp add: dropWhile_eq_drop)
  have top: "?f ?n = Some (p + ?n, drop ?n s, [(''url'', takeWhile ?P s)])"
    using e takeWhile_eq_take[of ?P s] by auto
  show ?thesis
  proof (cases "?n = 0")
    case True
    then show ?thesis unfolding eq by simp
  next
    case False
    then have "1 \<le> ?n" by (simp add: Suc_le_eq)
    from first_down_Some_top[of ?f ?n _ 1, OF top this]
    show ?thesis unfolding eq using False by (simp add: Let_def)
  qed
qed

lemma space_not_star: "is_space c \<Longrightarrow> c \<noteq> CHR ''*''"
  by (auto simp: is_space_def)

lemma no_close_inside:
  assumes "j < length (takeWhile is_space s)"
  shows "take 2 (drop j s) \<noteq> ''*/''"
proof -
  have "is_space (s ! j)" using assms by (rule takeWhile_P_nth)
  moreover have "j < length s"
    using assms length_takeWhile_le[of is_space s] by linarith
  ultimately show ?thesis
    by (cases "drop j s") (auto dest: space_not_star nth_via_drop)
qed

lemma spaces_then_close:
  "bt (Seq (Rep Space 0 None) (Lit ''*/'')) (p, s, caps) Some =
     (if startswith (dropWhile is_space s) ''*/''
      then Some (p + length (takeWhile is_space s) + 2, drop 2 (dropWhile is_space s), caps)
      else None)"
proof -
  let ?m = "length (takeWhile is_space s)"
  let ?f = "\<lambda>j. if take 2 (drop j s) = ''*/'' then Some (p + j + 2, drop 2 (drop j s), caps)
                 else None"
  have eq: "bt (Seq (Rep Space 0 None) (Lit ''*/'')) (p, s, caps) Some = first_down ?f 0 ?m"
    by (simp add: rep_first_down rep_max_def in_class_eqs, rule first_down_cong,
        simp add: numeral_2_eq_2)
  have "first_down ?f 0 ?m = (if 0 \<le> ?m then ?f ?m else None)"
    by (rule first_down_top) (simp add: no_close_inside)
  then show ?thesis
    unfolding eq by (simp add: startswith_def dropWhile_eq_drop numeral_2_eq_2)
qed

lemma bt_Seq: "bt (Seq r1 r2) st k = bt r1 st (\<lambda>st'. bt r2 st' k)"
  by simp

lemma bt_group_rep:
  "bt (Group name (Rep c m mx)) (p, s, caps) k =
     first_down (\<lambda>j. k (p + j, drop j s, (name, take j s) # caps)) m (rep_max c mx s)"
  by (simp add: rep_first_down)

lemma block_tail:
  "map_option (\<lambda>m. snd (snd m))
     (bt (Seq (Group ''url2'' (Rep Dot 1 None)) (Seq (Rep Space 0 None) (Lit ''*/'')))
        (p, s, []) Some) =
   first_down (\<lambda>j. if startswith (dropWhile is_space (drop j s)) ''*/''
                    then Some [(''url2'', take j s)] else None)
     1 (length (takeWhile (\<lambda>c. c \<noteq> CHR 0x0A) s))"
proof -
  let ?n = "length (takeWhile (\<lambda>c. c \<noteq> CHR 0x0A) s)"
  let ?f = "\<lambda>j. bt (Seq (Rep Space 0 None) (Lit ''*/'')) (p + j, drop j s, [(''url2'', take j s)])
                Some"
  have n: "rep_max Dot None s = ?n" by (simp add: rep_max_def in_class_eqs)
  have eq: "bt (Seq (Group ''url2'' (Rep Dot 1 None)) (Seq (Rep Space 0 None) (Lit ''*/'')))
              (p, s, []) Some = first_down ?f 1 ?n"
    by (simp only: bt_Seq[of "Group ''url2'' (Rep Dot 1 None)"] bt_group_rep n)
  show ?thesis
    unfolding eq first_down_map
    by (rule first_down_cong) (simp only: spaces_then_close, simp)
qed

lemma first_down_if:
  "first_down (\<lambda>j. if c j then Some (g j) else None) m n =
     map_option g (find c (rev [m..<Suc n]))"
proof (induction n)
  case 0
  then show ?case by (cases m) auto
next
  case (Suc n)
  show ?case
  proof (cases "Suc n < m")
    case True
    then show ?thesis by simp
  next
    case False
    then have "rev [m..<Suc (Suc n)] = Suc n # rev [m..<Suc n]" by simp
    then show ?thesis using False Suc by auto
  qed
qed

lemma bt_Lit:
  "bt (Lit l) (pos, s, caps) k =
     (if startswith s l then k (pos + length l, drop (length l) s, caps) else None)"
  by (simp add: startswith_def)

lemma sm_re_prefixes:
  "sm_re =
     Alt (Seq (Lit line_prefix) (Seq (Group ''url'' (Rep Dot 1 None)) Eol))
         (Seq (Lit block_prefix)
              (Seq (Group ''url2'' (Rep Dot 1 None)) (Seq (Rep Space 0 None) (Lit ''*/''))))"
  by (simp add: sm_re_def line_prefix_def block_prefix_def)

lemma line_alt:
  "bt (Seq (Lit line_prefix) (Seq (Group ''url'' (Rep Dot 1 None)) Eol)) (pos, s, []) Some =
   (case line_comment s of
      None \<Rightarrow> None
    | Some v \<Rightarrow>
        Some (pos + length line_prefix + length v,
              drop (length v) (drop (length line_prefix) s), [(''url'', v)]))"
  by (simp only: bt_Seq[of "Lit line_prefix"] bt_Lit line_tail)
     (simp add: line_comment_def Let_def)

lemma block_alt:
  "map_option (\<lambda>m. snd (snd m))
     (bt (Seq (Lit block_prefix)
            (Seq (Group ''url2'' (Rep Dot 1 None)) (Seq (Rep Space 0 None) (Lit ''*/''))))
        (pos, s, []) Some) =
   map_option (\<lambda>v. [(''url2'', v)]) (block_comment s)"
proof (cases "startswith s block_prefix")
  case False
  then show ?thesis
    by (simp only: bt_Seq[of "Lit block_prefix"] bt_Lit) (simp add: block_comment_def Let_def)
next
  case True
  have "map_option (\<lambda>m. snd (snd m))
     (bt (Seq (Lit block_prefix)
            (Seq (Group ''url2'' (Rep Dot 1 None)) (Seq (Rep Space 0 None) (Lit ''*/''))))
        (pos, s, []) Some) =
     map_option (\<lambda>m. snd (snd m))
     (bt (Seq (Group ''url2'' (Rep Dot 1 None)) (Seq (Rep Space 0 None) (Lit ''*/'')))
        (pos + length block_prefix, drop (length block_prefix) s, []) Some)"
    using True by (simp only: bt_Seq[of "Lit block_prefix"] bt_Lit if_True)
  then show ?thesis
    using True
    by (simp only: block_tail first_down_if)
       (simp add: block_comment_def Let_def option.map_comp comp_def)
qed

lemma line_comment_nonempty: "line_comment s = Some v \<Longrightarrow> v \<noteq> []"
  by (auto simp: line_comment_def Let_def split: if_splits)

lemma sm_re_alts:
  "bt sm_re (pos, s, []) Some =
     (case line_comment s of
        Some v \<Rightarrow>
          Some (pos + length line_prefix + length v,
                drop (length v) (drop (length line_prefix) s), [(''url'', v)])
      | None \<Rightarrow>
          bt (Seq (Lit block_prefix)
                (Seq (Group ''url2'' (Rep Dot 1 None)) (Seq (Rep Space 0 None) (Lit ''*/''))))
             (pos, s, []) Some)"
  by (simp only: sm_re_prefixes bt.simps(7) line_alt split: option.splits) simp

lemma sm_re_value:
  "map_option matched_url (bt sm_re (pos, s, []) Some) =
     (case line_comment s of
        Some v \<Rightarrow> Some (Some v)
      | None \<Rightarrow> map_option Some (block_comment s))"
proof (cases "line_comment s")
  case (Some v)
  then show ?thesis
    using line_comment_nonempty[OF Some]
    by (simp only: sm_re_alts) (simp add: matched_url_def group_def)
next
  case None
  let ?B = "Seq (Lit block_prefix)
              (Seq (Group ''url2'' (Rep Dot 1 None)) (Seq (Rep Space 0 None) (Lit ''*/'')))"
  have eq: "bt sm_re (pos, s, []) Some = bt ?B (pos, s, []) Some"
    using None by (simp only: sm_re_alts option.case)
  show ?thesis
  proof (cases "bt ?B (pos, s, []) Some")
    case n: None
    then show ?thesis using None block_alt[of pos s] unfolding eq by simp
  next
    case (Some m)
    have "map_option (\<lambda>v. [(''url2'', v)]) (block_comment s) = Some (snd (snd m))"
      using block_alt[of pos s] by (simp only: Some option.map)
    then obtain v where v: "block_comment s = Some v" "snd (snd m) = [(''url2'', v)]"
      by (cases "block_comment s") auto
    then show ?thesis using None Some unfolding eq
      by (simp add: matched_url_def group_def)
  qed
qed

lemma search_value:
  "map_option matched_url (search sm_re pos s) = map_option Some (first_reference s)"
proof (induction s arbitrary: pos)
  case Nil
  have "line_comment [] = None" "block_comment [] = None"
    by (simp_all add: line_comment_def block_comment_def Let_def startswith_def
        block_prefix_def)
  then show ?case using sm_re_value[of pos "[]"] by simp
next
  case (Cons c cs)
  show ?case
  proof (cases "bt sm_re (pos, c # cs, []) Some")
    case None
    then have "line_comment (c # cs) = None \<and> block_comment (c # cs) = None"
      using sm_re_value[of pos "c # cs"] by (auto split: option.splits)
    then show ?thesis using None Cons.IH[of "Suc pos"] by simp
  next
    case (Some m)
    then show ?thesis
      using sm_re_value[of pos "c # cs"] by (auto split: option.splits)
  qed
qed

lemma extract_is_first_reference:
  "extract_mapping_reference js_text =
     Inr (map_option (strip is_space) (first_reference js_text))"
proof (cases "search sm_re 0 js_text")
  case None
  then show ?thesis
    using search_value[of 0 js_text] by (simp add: extract_mapping_reference_def)
next
  case (Some m)
  have "map_option Some (first_reference js_text) = Some (matched_url m)"
    using search_value[of 0 js_text] by (simp only: Some option.map)
  then obtain v where "first_reference js_text = Some v" "matched_url m = Some v"
    by (cases "first_reference js_text") auto
  then show ?thesis using Some by (simp add: extract_mapping_reference_def)
qed

lemma takeWhile_line:
  assumes "CHR 0x0A \<notin> set v" and "rest = [] \<or> hd rest = CHR 0x0A"
  shows "takeWhile (\<lambda>c. c \<noteq> CHR 0x0A) (v @ rest) = v"
proof -
  have "takeWhile (\<lambda>c. c \<noteq> CHR 0x0A) rest = []"
    using assms(2) by (cases rest) auto
  moreover have "\<And>x. x \<in> set v \<Longrightarrow> x \<noteq> CHR 0x0A" using assms(1) by auto
  ultimately show ?thesis by (simp add: takeWhile_append2)
qed

text \<open>The line-comment form, said without the program: the text starts with the prefix,
  the value is not empty, has no newline, and ends where the line ends.\<close>

lemma line_comment_iff:
  "line_comment s = Some v \<longleftrightarrow>
     (\<exists>rest. s = line_prefix @ v @ rest \<and> v \<noteq> [] \<and> CHR 0x0A \<notin> set v
            \<and> (rest = [] \<or> hd rest = CHR 0x0A))"
proof
  let ?P = "\<lambda>c. c \<noteq> CHR 0x0A"
  let ?t = "drop (length line_prefix) s"
  assume "line_comment s = Some v"
  then have a: "startswith s line_prefix" "v = takeWhile ?P ?t" "v \<noteq> []"
    by (auto simp: line_comment_def Let_def split: if_splits)
  have "take (length line_prefix) s @ ?t = s" by (rule append_take_drop_id)
  then have "line_prefix @ ?t = s" using a(1) by (simp only: startswith_def)
  moreover have "?t = v @ dropWhile ?P ?t" using a(2) by simp
  ultimately have s: "s = line_prefix @ v @ dropWhile ?P ?t" by metis
  have "CHR 0x0A \<notin> set v" using a(2) by (auto dest: set_takeWhileD)
  moreover have "dropWhile ?P ?t = [] \<or> hd (dropWhile ?P ?t) = CHR 0x0A"
    using hd_dropWhile[of ?P ?t] by blast
  ultimately show "\<exists>rest. s = line_prefix @ v @ rest \<and> v \<noteq> [] \<and> CHR 0x0A \<notin> set v
            \<and> (rest = [] \<or> hd rest = CHR 0x0A)"
    using s a(3) by blast
next
  assume "\<exists>rest. s = line_prefix @ v @ rest \<and> v \<noteq> [] \<and> CHR 0x0A \<notin> set v
            \<and> (rest = [] \<or> hd rest = CHR 0x0A)"
  then obtain rest where r: "s = line_prefix @ v @ rest" "v \<noteq> []" "CHR 0x0A \<notin> set v"
    "rest = [] \<or> hd rest = CHR 0x0A" by blast
  show "line_comment s = Some v"
    using r(2) takeWhile_line[OF r(3) r(4)]
    by (simp add: line_comment_def Let_def r(1) startswith_def)
qed

lemma first_reference_skip:
  assumes "\<And>k. k < n \<Longrightarrow> line_comment (drop k s) = None \<and> block_comment (drop k s) = None"
      and "n \<le> length s"
  shows "first_reference s = first_reference (drop n s)"
  using assms
proof (induction n arbitrary: s)
  case 0
  then show ?case by simp
next
  case (Suc n)
  then obtain c cs where s: "s = c # cs" by (cases s) auto
  have z: "line_comment (c # cs) = None \<and> block_comment (c # cs) = None"
    using Suc.prems(1)[of 0] s by simp
  have "\<And>k. k < n \<Longrightarrow> line_comment (drop k cs) = None \<and> block_comment (drop k cs) = None"
    using Suc.prems(1)[of "Suc _"] s by simp
  from Suc.IH[OF this] Suc.prems(2) s have "first_reference cs = first_reference (drop n cs)"
    by simp
  then show ?case using z s by simp
qed

lemma line_prefix_nonempty: "line_prefix \<noteq> []"
  by (simp add: line_prefix_def)

lemma first_reference_line:
  assumes "v \<noteq> []" and "CHR 0x0A \<notin> set v"
  shows "first_reference (line_prefix @ v @ post)
           = Some (v @ takeWhile (\<lambda>c. c \<noteq> CHR 0x0A) post)"
proof -
  let ?P = "\<lambda>c. c \<noteq> CHR 0x0A"
  obtain c cs where s: "line_prefix @ v @ post = c # cs"
    using line_prefix_nonempty by (cases "line_prefix @ v @ post") auto
  have "\<And>x. x \<in> set v \<Longrightarrow> ?P x" using assms(2) by auto
  then have "takeWhile ?P (v @ post) = v @ takeWhile ?P post"
    by (simp add: takeWhile_append2)
  then have "line_comment (line_prefix @ v @ post) = Some (v @ takeWhile ?P post)"
    using assms(1) by (simp add: line_comment_def Let_def startswith_def)
  then show ?thesis unfolding s by simp
qed

lemma strip_trailing_space:
  assumes "list_all is_space ws"
  shows "strip is_space (v @ ws) = strip is_space v"
proof -
  have "dropWhile is_space (rev ws @ rev v) = dropWhile is_space (rev v)"
  proof (rule dropWhile_append2)
    fix x
    assume "x \<in> set (rev ws)"
    then show "is_space x" using assms by (simp add: list_all_iff)
  qed
  then show ?thesis by (simp add: strip_def rstrip_def)
qed

lemma first_reference_None_all:
  "first_reference s = None \<longleftrightarrow>
     (\<forall>k<length s. line_comment (drop k s) = None \<and> block_comment (drop k s) = None)"
proof (induction s)
  case Nil
  then show ?case by simp
next
  case (Cons c cs)
  let ?P = "\<lambda>t. line_comment t = None \<and> block_comment t = None"
  have "(\<forall>k<length (c # cs). ?P (drop k (c # cs)))
          \<longleftrightarrow> ?P (c # cs) \<and> (\<forall>k<length cs. ?P (drop k cs))"
    by (simp add: All_less_Suc2)
  moreover have "first_reference (c # cs) = None \<longleftrightarrow> ?P (c # cs) \<and> first_reference cs = None"
    by (simp split: option.splits)
  ultimately show ?case using Cons.IH by (simp only:)
qed

lemma first_reference_None_iff:
  "first_reference s = None \<longleftrightarrow>
     list_all (\<lambda>k. line_comment (drop k s) = None \<and> block_comment (drop k s) = None)
       [0..<length s]"
  by (simp add: first_reference_None_all list_all_iff Ball_def)

text \<open>A step of either loop at a source whose content is embedded: the content goes to
  \<^verbatim>\<open>save_file\<close> as it is, and nothing is requested.\<close>

lemma remote_source_embedded:
  assumes "embedded_content contents i = Inr (Some (JStr c))"
  shows "remote_source env out_dir js sm (JStr r) contents i (JStr s) st =
           (case save_file env out_dir (JStr (sanitize s r)) (JStr c) st of
              Inl e \<Rightarrow> Inl e
            | Inr (_, st2) \<Rightarrow>
                Inr ((), emit (Print (Saved (sanitize s r)))
                           (st2\<lparr>saved_files := saved_files st2 + 1\<rparr>)))"
  using assms by (simp add: remote_source_def remote_content_def cleaned_path_str)

lemma inline_source_embedded:
  assumes "embedded_content contents i = Inr (Some (JStr c))"
  shows "inline_source env out_dir page (JStr r) contents i (JStr s) st =
           (case save_file env out_dir (JStr (if r = [] then s else path_join r s)) (JStr c) st of
              Inl e \<Rightarrow> Inl e
            | Inr (_, st2) \<Rightarrow> Inr ((), st2\<lparr>saved_files := saved_files st2 + 1\<rparr>))"
  using assms by (simp add: inline_source_def inline_content_def inline_filename_str)

lemma remote_loop_embedded:
  assumes e: "embedded_content contents (length pre) = Inr (Some (JStr c))"
      and p: "for_each (remote_source env out_dir js sm (JStr r) contents) 0 pre st0 = Inr ((), st)"
  shows "(fs_accepts env (trace st) (path_join out_dir (sanitize s r)) \<longrightarrow>
           (\<exists>st'. for_each (remote_source env out_dir js sm (JStr r) contents) 0
                     (pre @ JStr s # post) st0
                   = for_each (remote_source env out_dir js sm (JStr r) contents)
                       (Suc (length pre)) post st'
              \<and> gets (trace st') = gets (trace st)
              \<and> writes (trace st') = writes (trace st) @ [(path_join out_dir (sanitize s r), c)]
              \<and> saved_files st' = saved_files st + 1))
       \<and> (\<not> fs_accepts env (trace st) (path_join out_dir (sanitize s r)) \<longrightarrow>
           (\<exists>e st'. for_each (remote_source env out_dir js sm (JStr r) contents) 0
                     (pre @ JStr s # post) st0 = Inl (e, st')
              \<and> gets (trace st') = gets (trace st)
              \<and> writes (trace st') = writes (trace st)
              \<and> saved_files st' = saved_files st))"
proof (intro conjI impI)
  let ?q = "sanitize s r"
  assume "fs_accepts env (trace st) (path_join out_dir ?q)"
  from save_file_accepted[OF this, of c]
  obtain st1 where s1: "save_file env out_dir (JStr ?q) (JStr c) st
                 = Inr ((), emit (Write (path_join out_dir ?q) c) st1)"
     "saved_files st1 = saved_files st" "gets (trace st1) = gets (trace st)"
     "writes (trace st1) = writes (trace st)"
    by blast
  show "\<exists>st'. for_each (remote_source env out_dir js sm (JStr r) contents) 0
                     (pre @ JStr s # post) st0
                   = for_each (remote_source env out_dir js sm (JStr r) contents)
                       (Suc (length pre)) post st'
              \<and> gets (trace st') = gets (trace st)
              \<and> writes (trace st') = writes (trace st) @ [(path_join out_dir ?q, c)]
              \<and> saved_files st' = saved_files st + 1"
    using s1
    by (intro exI[of _ "emit (Print (Saved ?q))
                      ((emit (Write (path_join out_dir ?q) c) st1)
                       \<lparr>saved_files := saved_files (emit (Write (path_join out_dir ?q) c) st1) + 1\<rparr>)"])
       (simp add: for_each_append p remote_source_embedded[OF e])
next
  let ?q = "sanitize s r"
  assume "\<not> fs_accepts env (trace st) (path_join out_dir ?q)"
  from save_file_refused[OF this, of c]
  obtain e1 st1 where s1: "save_file env out_dir (JStr ?q) (JStr c) st = Inl (e1, st1)"
     "saved_files st1 = saved_files st" "gets (trace st1) = gets (trace st)"
     "writes (trace st1) = writes (trace st)"
    by blast
  show "\<exists>e st'. for_each (remote_source env out_dir js sm (JStr r) contents) 0
                     (pre @ JStr s # post) st0 = Inl (e, st')
              \<and> gets (trace st') = gets (trace st)
              \<and> writes (trace st') = writes (trace st)
              \<and> saved_files st' = saved_files st"
    using s1
    by (intro exI[of _ e1] exI[of _ st1])
       (simp add: for_each_append p remote_source_embedded[OF e])
qed

lemma inline_loop_embedded:
  assumes e: "embedded_content contents (length pre) = Inr (Some (JStr c))"
      and p: "for_each (inline_source env out_dir page (JStr r) contents) 0 pre st0 = Inr ((), st)"
  shows "(fs_accepts env (trace st) (path_join out_dir (if r = [] then s else path_join r s)) \<longrightarrow>
           (\<exists>st'. for_each (inline_source env out_dir page (JStr r) contents) 0
                     (pre @ JStr s # post) st0
                   = for_each (inline_source env out_dir page (JStr r) contents)
                       (Suc (length pre)) post st'
              \<and> gets (trace st') = gets (trace st)
              \<and> writes (trace st') =
                  writes (trace st)
                    @ [(path_join out_dir (if r = [] then s else path_join r s), c)]
              \<and> saved_files st' = saved_files st + 1))
       \<and> (\<not> fs_accepts env (trace st) (path_join out_dir (if r = [] then s else path_join r s)) \<longrightarrow>
           (\<exists>e st'. for_each (inline_source env out_dir page (JStr r) contents) 0
                     (pre @ JStr s # post) st0 = Inl (e, st')
              \<and> gets (trace st') = gets (trace st)
              \<and> writes (trace st') = writes (trace st)
              \<and> saved_files st' = saved_files st))"
proof (intro conjI impI)
  let ?q = "if r = [] then s else path_join r s"
  assume "fs_accepts env (trace st) (path_join out_dir ?q)"
  from save_file_accepted[OF this, of c]
  obtain st1 where s1: "save_file env out_dir (JStr ?q) (JStr c) st
                 = Inr ((), emit (Write (path_join out_dir ?q) c) st1)"
     "saved_files st1 = saved_files st" "gets (trace st1) = gets (trace st)"
     "writes (trace st1) = writes (trace st)"
    by blast
  show "\<exists>st'. for_each (inline_source env out_dir page (JStr r) contents) 0
                     (pre @ JStr s # post) st0
                   = for_each (inline_source env out_dir page (JStr r) contents)
                       (Suc (length pre)) post st'
              \<and> gets (trace st') = gets (trace st)
              \<and> writes (trace st') = writes (trace st) @ [(path_join out_dir ?q, c)]
              \<and> saved_files st' = saved_files st + 1"
    using s1
    by (intro exI[of _ "(emit (Write (path_join out_dir ?q) c) st1)
                       \<lparr>saved_files := saved_files (emit (Write (path_join out_dir ?q) c) st1) + 1\<rparr>"])
       (simp add: for_each_append p inline_source_embedded[OF e])
next
  let ?q = "if r = [] then s else path_join r s"
  assume "\<not> fs_accepts env (trace st) (path_join out_dir ?q)"
  from save_file_refused[OF this, of c]
  obtain e1 st1 where s1: "save_file env out_dir (JStr ?q) (JStr c) st = Inl (e1, st1)"
     "saved_files st1 = saved_files st" "gets (trace st1) = gets (trace st)"
     "writes (trace st1) = writes (trace st)"
    by blast
  show "\<exists>e st'. for_each (inline_source env out_dir page (JStr r) contents) 0
                     (pre @ JStr s # post) st0 = Inl (e, st')
              \<and> gets (trace st') = gets (trace st)
              \<and> writes (trace st') = writes (trace st)
              \<and> saved_files st' = saved_files st"
    using s1
    by (intro exI[of _ e1] exI[of _ st1])
       (simp add: for_each_append p inline_source_embedded[OF e])
qed






section \<open>Where recovered files are written\<close>

text \<open>
  The loop of a remote script sanitizes, as lines 178 to 185 say they do
  (\<^verbatim>\<open>Create a safe path\<close>): every file that it writes is written at
  \<^verbatim>\<open>os.path.join(out_dir, p)\<close>, where \<open>p\<close> is the sanitized path of one of the sources under
  the source root of the map; \<open>p\<close> never starts with a slash, so the path written begins
  with the output directory. There are at most as many files as sources. Segments \<^verbatim>\<open>..\<close>
  of a source stay in \<open>p\<close>.
\<close>

lemma remote_files_written_at_sanitized_paths:
  assumes "dict_get sm_json ''sourceRoot'' (JStr []) = Inr (JStr r)"
      and "dict_get sm_json ''sources'' (JArr []) = Inr (JArr srcs)"
  shows "\<exists>new. trace (final (recover_sources (remote_source env out_dir js_final_url sm) sm_json st))
                 = trace st @ new
           \<and> length (writes new) \<le> length srcs
           \<and> list_all (\<lambda>(p, c). prefix out_dir p
                          \<and> (\<exists>s. JStr s \<in> set srcs \<and> p = path_join out_dir (sanitize s r)))
               (writes new)"
proof -
  obtain contents where c: "dict_get sm_json ''sourcesContent'' (JArr []) = Inr contents"
    using dict_get_obj[OF assms(1)] by blast
  let ?W = "\<lambda>(p, c). prefix out_dir p
                          \<and> (\<exists>s. JStr s \<in> set srcs \<and> p = path_join out_dir (sanitize s r))"
  let ?body = "remote_source env out_dir js_final_url sm (JStr r) contents"
  have step: "\<exists>new. trace (final (?body i x st)) = trace st @ new
                \<and> length (writes new) \<le> 1 \<and> list_all ?W (writes new)
                \<and> list_all (\<lambda>u. True) (gets new) \<and> list_all (\<lambda>l. True) (prints new)"
    if "x \<in> set srcs" for i x st
  proof -
    obtain new where n: "trace (final (?body i x st)) = trace st @ new"
      "writes new = [] \<or> (\<exists>q c. cleaned_path x (JStr r) = Inr q
          \<and> writes new = [(path_join out_dir q, c)])"
      using remote_source_new[of env out_dir js_final_url sm "JStr r" contents i x st] by blast
    have "list_all ?W (writes new)"
      using n(2) that
      by (auto dest!: cleaned_path_Inr simp: path_join_prefix sanitize_no_slash)
    moreover have "length (writes new) \<le> 1" using n(2) by auto
    ultimately show ?thesis using n(1) by (intro exI[of _ new]) (simp add: list_all_iff)
  qed
  show ?thesis
    unfolding recover_sources_eq[OF assms(1) assms(2) c]
    using for_each_new[of srcs ?body ?W "\<lambda>u. True" "\<lambda>l. True" 0
        "st\<lparr>processed_maps := processed_maps st + 1\<rparr>", OF step]
    by auto
qed

text \<open>
  Claim C1 on page \<^verbatim>\<open>a\<close>, an inline script whose map has the sources
  \<^verbatim>\<open>webpack:///src/x.js\<close> and \<^verbatim>\<open>/tmp/y.js\<close> with their contents. Lines 134 to 136 of the
  loop of an inline script join the source root and the source as they are: the first
  source keeps its prefix, where the sanitized path is \<^verbatim>\<open>src/x.js\<close>, and the second is
  written at the absolute path \<^verbatim>\<open>/tmp/y.js\<close>, which does not begin with the output
  directory, where the sanitized path gives \<^verbatim>\<open>out/tmp/y.js\<close>.
\<close>

theorem inline_files_written_unsanitized:
  "fst (main demo_env [''grab'', ''https://site.example/a'', ''out'']) = Finished
     \<and> writes (trace (snd (main demo_env [''grab'', ''https://site.example/a'', ''out'']))) =
       [(''out/webpack:///src/x.js'', ''hi''), (''/tmp/y.js'', ''yo'')]
     \<and> path_join ''out'' (sanitize ''webpack:///src/x.js'' []) = ''out/src/x.js''
     \<and> path_join ''out'' (sanitize ''/tmp/y.js'' []) = ''out/tmp/y.js''
     \<and> \<not> prefix ''out'' ''/tmp/y.js''"
  by code_simp

section \<open>Fetching a source\<close>

text \<open>
  Claim C6, as the program has it. A fetch supplies the content of a source exactly when
  the request raises nothing, the status code is 200 and the body has a character that is
  no white space; the content is then the body as it is. Any other response, also another
  2xx status or a body of white space only, leaves the content unobtainable.
\<close>

theorem fetch_supplies_content_iff:
  "fst (try_fetch_source_by_url env (JStr s) map_url st) = Some t \<longleftrightarrow>
     (\<exists>u r. urljoin env map_url s = Some u \<and> http_get env u = Some r
            \<and> status_code r = 200 \<and> strip is_space (rtext r) \<noteq> [] \<and> rtext r = t)"
  by (simp add: try_fetch_result candidate_url_def)

text \<open>The theorem on \<^verbatim>\<open>src/util.js\<close> of the map of page \<^verbatim>\<open>f\<close>.\<close>

theorem fetch_supplies_content_iff_witness:
  "fst (try_fetch_source_by_url demo_env (JStr ''src/util.js'')
          ''https://cdn.example/js/app.js.map'' init) = Some ''export {}''"
proof -
  have "urljoin demo_env ''https://cdn.example/js/app.js.map'' ''src/util.js''
          = Some ''https://cdn.example/js/src/util.js''
      \<and> http_get demo_env ''https://cdn.example/js/src/util.js''
          = Some \<lparr>status_code = 200, rtext = ''export {}'',
                  rurl = ''https://cdn.example/js/src/util.js''\<rparr>
      \<and> status_code \<lparr>status_code = 200, rtext = ''export {}'',
                  rurl = ''https://cdn.example/js/src/util.js''\<rparr> = 200
      \<and> strip is_space (rtext \<lparr>status_code = 200, rtext = ''export {}'',
                  rurl = ''https://cdn.example/js/src/util.js''\<rparr>) \<noteq> []
      \<and> rtext \<lparr>status_code = 200, rtext = ''export {}'',
                  rurl = ''https://cdn.example/js/src/util.js''\<rparr> = ''export {}''"
    by code_simp
  then have "\<exists>u r. urljoin demo_env ''https://cdn.example/js/app.js.map'' ''src/util.js'' = Some u
      \<and> http_get demo_env u = Some r \<and> status_code r = 200
      \<and> strip is_space (rtext r) \<noteq> [] \<and> rtext r = ''export {}''"
    by blast
  then show ?thesis
    by (simp only: fetch_supplies_content_iff)
qed

text \<open>
  Claim C6 as stated fails: a response 201 with the body \<^verbatim>\<open>x\<close> is a 2xx response with a
  body that is not empty, and so is a response 200 whose body is a space and a newline;
  neither supplies a content.
\<close>

theorem fetch_rejects_2xx_counterexample:
  "map_option status_code (http_get demo_env ''https://cdn.example/js/src/created.js'') = Some 201
   \<and> map_option rtext (http_get demo_env ''https://cdn.example/js/src/created.js'') = Some ''x''
   \<and> fst (try_fetch_source_by_url demo_env (JStr ''src/created.js'')
             ''https://cdn.example/js/app.js.map'' init) = None
   \<and> map_option status_code (http_get demo_env ''https://cdn.example/js/src/blank.js'') = Some 200
   \<and> map_option rtext (http_get demo_env ''https://cdn.example/js/src/blank.js'')
        = Some [CHR 0x20, CHR 0x0A]
   \<and> fst (try_fetch_source_by_url demo_env (JStr ''src/blank.js'')
             ''https://cdn.example/js/app.js.map'' init) = None"
  by code_simp

section \<open>Embedded content\<close>

text \<open>
  Claim C4. Let a map have a string as its source root, the list of sources
  \<open>pre @ JStr s # post\<close> and a list \<^verbatim>\<open>sourcesContent\<close> that holds the string \<open>c\<close> at the index
  \<open>length pre\<close> of the source \<open>s\<close>, and let the loop over its sources have passed the sources
  \<open>pre\<close>. Then the step at \<open>s\<close> issues no request and hands \<open>c\<close> as it is to \<^verbatim>\<open>save_file\<close>.
  When the file system lets the file be written, one file with the content \<open>c\<close> is
  written, at the sanitized path in the loop of a remote script and at the joined path in
  the loop of an inline script, it is counted, and the loop goes on with the sources
  \<open>post\<close>. When \<^verbatim>\<open>os.makedirs\<close> or \<^verbatim>\<open>open\<close> raises, nothing is written and the exception ends
  the loop.
\<close>

theorem embedded_content_used_without_fetch:
  assumes "dict_get sm_json ''sourceRoot'' (JStr []) = Inr (JStr r)"
      and "dict_get sm_json ''sources'' (JArr []) = Inr (JArr (pre @ JStr s # post))"
      and "dict_get sm_json ''sourcesContent'' (JArr []) = Inr (JArr cs)"
      and "length pre < length cs" and "cs ! length pre = JStr c"
  shows "(for_each (remote_source env out_dir js_final_url sm (JStr r) (JArr cs)) 0 pre
            (st0\<lparr>processed_maps := processed_maps st0 + 1\<rparr>) = Inr ((), st) \<longrightarrow>
          (fs_accepts env (trace st) (path_join out_dir (sanitize s r)) \<longrightarrow>
             (\<exists>st'. recover_sources (remote_source env out_dir js_final_url sm) sm_json st0
                   = for_each (remote_source env out_dir js_final_url sm (JStr r) (JArr cs))
                       (Suc (length pre)) post st'
                \<and> gets (trace st') = gets (trace st)
                \<and> writes (trace st')
                    = writes (trace st) @ [(path_join out_dir (sanitize s r), c)]
                \<and> saved_files st' = saved_files st + 1))
        \<and> (\<not> fs_accepts env (trace st) (path_join out_dir (sanitize s r)) \<longrightarrow>
             (\<exists>e st'. recover_sources (remote_source env out_dir js_final_url sm) sm_json st0
                   = Inl (e, st')
                \<and> gets (trace st') = gets (trace st)
                \<and> writes (trace st') = writes (trace st)
                \<and> saved_files st' = saved_files st)))
       \<and> (for_each (inline_source env out_dir final_page_url (JStr r) (JArr cs)) 0 pre
            (st0\<lparr>processed_maps := processed_maps st0 + 1\<rparr>) = Inr ((), st) \<longrightarrow>
          (fs_accepts env (trace st)
             (path_join out_dir (if r = [] then s else path_join r s)) \<longrightarrow>
             (\<exists>st'. recover_sources (inline_source env out_dir final_page_url) sm_json st0
                   = for_each (inline_source env out_dir final_page_url (JStr r) (JArr cs))
                       (Suc (length pre)) post st'
                \<and> gets (trace st') = gets (trace st)
                \<and> writes (trace st')
                    = writes (trace st)
                        @ [(path_join out_dir (if r = [] then s else path_join r s), c)]
                \<and> saved_files st' = saved_files st + 1))
        \<and> (\<not> fs_accepts env (trace st)
               (path_join out_dir (if r = [] then s else path_join r s)) \<longrightarrow>
             (\<exists>e st'. recover_sources (inline_source env out_dir final_page_url) sm_json st0
                   = Inl (e, st')
                \<and> gets (trace st') = gets (trace st)
                \<and> writes (trace st') = writes (trace st)
                \<and> saved_files st' = saved_files st)))"
proof -
  have e: "embedded_content (JArr cs) (length pre) = Inr (Some (JStr c))"
    using assms(4,5) by (simp add: embedded_content_arr)
  note eq = recover_sources_eq[OF assms(1) assms(2) assms(3)]
  show ?thesis
    unfolding eq using remote_loop_embedded[OF e] inline_loop_embedded[OF e] by blast
qed

text \<open>
  The theorem on the second source of the map of page \<^verbatim>\<open>f\<close>, whose embedded content is the
  empty string, and on the first source of the map \<^verbatim>\<open>h\<close> in the loop of an inline script:
  the file would be \<^verbatim>\<open>out/webpack:///\<close>, and \<^verbatim>\<open>open\<close> raises on a path that ends with a
  slash.
\<close>

theorem embedded_content_used_without_fetch_witness:
  "(\<exists>st'. recover_sources
             (remote_source demo_env ''out'' ''https://cdn.example/js/app.js'' ''app.js.map'')
             demo_map_f init
           = for_each (remote_source demo_env ''out'' ''https://cdn.example/js/app.js''
                         ''app.js.map'' (JStr [])
                         (JArr [JStr ''console.log(1)'', JStr [], JNull]))
               2 [JStr ''src/gone.js'', JStr ''src/util.js'', JStr ''../lib/up.js''] st'
        \<and> gets (trace st') = []
        \<and> writes (trace st')
            = [(''out/src/index.js'', ''console.log(1)''), (''out/src/empty.js'', [])]
        \<and> saved_files st' = 2)
   \<and> \<not> fs_accepts demo_env [] ''out/''
   \<and> (\<exists>e st'. recover_sources
             (inline_source demo_env ''out'' ''https://site.example/h'') demo_map_h init
           = Inl (e, st')
        \<and> gets (trace st') = [] \<and> writes (trace st') = [] \<and> saved_files st' = 0)"
proof -
  let ?cs = "[JStr ''console.log(1)'', JStr [], JNull]"
  let ?body = "remote_source demo_env ''out'' ''https://cdn.example/js/app.js'' ''app.js.map''
                 (JStr []) (JArr ?cs)"
  let ?pre = "[JStr ''webpack:///src/index.js'']"
  let ?post = "[JStr ''src/gone.js'', JStr ''src/util.js'', JStr ''../lib/up.js'']"
  let ?ini = "init\<lparr>processed_maps := processed_maps init + 1\<rparr>"
  let ?mid = "\<lparr>trace = [MkDirs ''out/src'', Write ''out/src/index.js'' ''console.log(1)'',
                        Print (Saved ''src/index.js'')],
              processed_maps = 1, saved_files = 1\<rparr>"
  have f1: "dict_get demo_map_f ''sourceRoot'' (JStr []) = Inr (JStr [])" by code_simp
  have f2: "dict_get demo_map_f ''sources'' (JArr [])
              = Inr (JArr (?pre @ JStr ''src/empty.js'' # ?post))" by code_simp
  have f3: "dict_get demo_map_f ''sourcesContent'' (JArr []) = Inr (JArr ?cs)" by code_simp
  have f4: "length ?pre < length ?cs" by simp
  have f5: "?cs ! length ?pre = JStr []" by simp
  have reach: "for_each ?body 0 ?pre ?ini = Inr ((), ?mid)" by code_simp
  have acc: "fs_accepts demo_env (trace ?mid) (path_join ''out'' (sanitize ''src/empty.js'' []))"
    by code_simp
  have g: "gets (trace ?mid) = []" by code_simp
  have w: "writes (trace ?mid) @ [(path_join ''out'' (sanitize ''src/empty.js'' []), [])]
             = [(''out/src/index.js'', ''console.log(1)''), (''out/src/empty.js'', [])]"
    by code_simp
  have n: "saved_files ?mid + 1 = 2" by code_simp
  have l: "Suc (length ?pre) = 2" by simp
  note a = embedded_content_used_without_fetch[OF f1 f2 f3 f4 f5, of demo_env "''out''"
      "''https://cdn.example/js/app.js''" "''app.js.map''" init ?mid,
      THEN conjunct1, THEN mp, OF reach, THEN conjunct1, THEN mp, OF acc]
  have A: "\<exists>st'. recover_sources
             (remote_source demo_env ''out'' ''https://cdn.example/js/app.js'' ''app.js.map'')
             demo_map_f init
           = for_each ?body 2 ?post st'
        \<and> gets (trace st') = []
        \<and> writes (trace st')
            = [(''out/src/index.js'', ''console.log(1)''), (''out/src/empty.js'', [])]
        \<and> saved_files st' = 2"
    using a unfolding g w n l .
  let ?ibody = "inline_source demo_env ''out'' ''https://site.example/h'' (JStr [])
                  (JArr [JStr ''x'', JStr ''B''])"
  have h1: "dict_get demo_map_h ''sourceRoot'' (JStr []) = Inr (JStr [])" by code_simp
  have h2: "dict_get demo_map_h ''sources'' (JArr [])
              = Inr (JArr ([] @ JStr ''webpack:///'' # [JStr ''src/b.js'']))" by code_simp
  have h3: "dict_get demo_map_h ''sourcesContent'' (JArr [])
              = Inr (JArr [JStr ''x'', JStr ''B''])" by code_simp
  have h4: "length ([] :: json list) < length [JStr ''x'', JStr ''B'']" by simp
  have h5: "[JStr ''x'', JStr ''B''] ! length ([] :: json list) = JStr ''x''" by simp
  have ireach: "for_each ?ibody 0 [] ?ini = Inr ((), ?ini)" by simp
  have t0: "trace ?ini = []" by (simp add: init_def)
  have s0: "saved_files ?ini = 0" by (simp add: init_def)
  have q: "path_join ''out'' (if ([] :: string) = [] then ''webpack:///''
                              else path_join [] ''webpack:///'') = ''out/webpack:///''"
    by code_simp
  have B: "\<not> fs_accepts demo_env [] ''out/''" by code_simp
  have nacc: "\<not> fs_accepts demo_env (trace ?ini)
                 (path_join ''out'' (if ([] :: string) = [] then ''webpack:///''
                                     else path_join [] ''webpack:///''))"
    unfolding t0 by code_simp
  note b = embedded_content_used_without_fetch[OF h1 h2 h3 h4 h5, of demo_env "''out''"
      _ _ init ?ini "''https://site.example/h''",
      THEN conjunct2, THEN mp, OF ireach, THEN conjunct2, THEN mp, OF nacc]
  have C: "\<exists>e st'. recover_sources
             (inline_source demo_env ''out'' ''https://site.example/h'') demo_map_h init
           = Inl (e, st')
        \<and> gets (trace st') = [] \<and> writes (trace st') = [] \<and> saved_files st' = 0"
    using b unfolding t0 s0 by simp
  show ?thesis
    by (intro conjI) (rule A B C)+
qed

section \<open>How many files, and with what content\<close>

text \<open>
  Claim C5, as the program has it. For a map whose \<^verbatim>\<open>sources\<close> is a list and whose
  \<^verbatim>\<open>sourcesContent\<close> is a list of strings and \<^verbatim>\<open>null\<close>s, the loop over the sources, of a
  remote script and of an inline one, writes at most as many files as there are sources,
  and the content of every file is an entry of \<^verbatim>\<open>sourcesContent\<close>, taken as it is, or a
  fetched body with a character that is no white space. An embedded empty string is
  written as an empty file.
\<close>

theorem recovered_files_bounded:
  assumes "dict_get sm_json ''sources'' (JArr []) = Inr (JArr srcs)"
      and "dict_get sm_json ''sourcesContent'' (JArr []) = Inr (JArr cs)"
      and "list_all opt_str cs"
  shows "(\<exists>new. trace (final (recover_sources (remote_source env out_dir js_final_url sm)
                                sm_json st)) = trace st @ new
            \<and> length (writes new) \<le> length srcs
            \<and> list_all (\<lambda>(p, c). JStr c \<in> set cs \<or> strip is_space c \<noteq> []) (writes new))
       \<and> (\<exists>new. trace (final (recover_sources (inline_source env out_dir final_page_url)
                                sm_json st)) = trace st @ new
            \<and> length (writes new) \<le> length srcs
            \<and> list_all (\<lambda>(p, c). JStr c \<in> set cs \<or> strip is_space c \<noteq> []) (writes new))"
proof -
  obtain root where root: "dict_get sm_json ''sourceRoot'' (JStr []) = Inr root"
    using dict_get_obj[OF assms(1)] by blast
  let ?W = "\<lambda>(p, c). JStr c \<in> set cs \<or> strip is_space c \<noteq> []"
  let ?T = "\<lambda>x. True"
  let ?st1 = "st\<lparr>processed_maps := processed_maps st + 1\<rparr>"
  have rstep: "\<exists>new. trace (final (remote_source env out_dir js_final_url sm root (JArr cs) i x st))
                  = trace st @ new
                \<and> length (writes new) \<le> 1 \<and> list_all ?W (writes new)
                \<and> list_all ?T (gets new) \<and> list_all ?T (prints new)" for i x st
  proof -
    obtain new where n:
      "trace (final (remote_source env out_dir js_final_url sm root (JArr cs) i x st))
         = trace st @ new"
      "writes new = [] \<or>
         (\<exists>q c. cleaned_path x root = Inr q \<and> writes new = [(path_join out_dir q, c)]
            \<and> (embedded_content (JArr cs) i = Inr (Some (JStr c))
               \<or> (embedded_content (JArr cs) i = Inr None \<and> strip is_space c \<noteq> [])
               \<or> (c = [] \<and> (\<exists>v. embedded_content (JArr cs) i = Inr (Some v)
                                  \<and> (\<forall>c'. v \<noteq> JStr c')))))"
      using remote_source_new[of env out_dir js_final_url sm root "JArr cs" i x st] by blast
    have "length (writes new) \<le> 1 \<and> list_all ?W (writes new)"
      using n(2) embedded_typed[OF assms(3)] by fastforce
    then show ?thesis using n(1) by (intro exI[of _ new]) (simp add: list_all_iff)
  qed
  have istep: "\<exists>new. trace (final (inline_source env out_dir final_page_url root (JArr cs) i x st))
                  = trace st @ new
                \<and> length (writes new) \<le> 1 \<and> list_all ?W (writes new)
                \<and> list_all ?T (gets new) \<and> list_all ?T (prints new)" for i x st
  proof -
    obtain new where n:
      "trace (final (inline_source env out_dir final_page_url root (JArr cs) i x st))
         = trace st @ new"
      "writes new = [] \<or>
         (\<exists>f c. inline_filename x root = Inr (JStr f) \<and> writes new = [(path_join out_dir f, c)]
            \<and> (embedded_content (JArr cs) i = Inr (Some (JStr c))
               \<or> (embedded_content (JArr cs) i = Inr None \<and> strip is_space c \<noteq> [])
               \<or> (c = [] \<and> (\<exists>v. embedded_content (JArr cs) i = Inr (Some v)
                                  \<and> (\<forall>c'. v \<noteq> JStr c')))))"
      using inline_source_new[of env out_dir final_page_url root "JArr cs" i x st] by blast
    have "length (writes new) \<le> 1 \<and> list_all ?W (writes new)"
      using n(2) embedded_typed[OF assms(3)] by fastforce
    then show ?thesis using n(1) by (intro exI[of _ new]) (simp add: list_all_iff)
  qed
  have r: "\<exists>new. trace (final (recover_sources (remote_source env out_dir js_final_url sm)
                                sm_json st)) = trace st @ new
            \<and> length (writes new) \<le> length srcs \<and> list_all ?W (writes new)"
    unfolding recover_sources_eq[OF root assms(1) assms(2)]
    using for_each_new[of srcs "remote_source env out_dir js_final_url sm root (JArr cs)"
        ?W ?T ?T 0 ?st1, OF rstep]
    by auto
  have i: "\<exists>new. trace (final (recover_sources (inline_source env out_dir final_page_url)
                                sm_json st)) = trace st @ new
            \<and> length (writes new) \<le> length srcs \<and> list_all ?W (writes new)"
    unfolding recover_sources_eq[OF root assms(1) assms(2)]
    using for_each_new[of srcs "inline_source env out_dir final_page_url root (JArr cs)"
        ?W ?T ?T 0 ?st1, OF istep]
    by auto
  show ?thesis using r i by blast
qed

text \<open>
  The theorem on the map of page \<^verbatim>\<open>f\<close>: five sources, four files.
\<close>

theorem recovered_files_bounded_witness:
  "\<exists>srcs cs. dict_get demo_map_f ''sources'' (JArr []) = Inr (JArr srcs)
     \<and> dict_get demo_map_f ''sourcesContent'' (JArr []) = Inr (JArr cs)
     \<and> list_all opt_str cs
     \<and> length srcs = 5
     \<and> (\<exists>new. trace (final (recover_sources
                  (remote_source demo_env ''out'' ''https://cdn.example/js/app.js'' ''app.js.map'')
                  demo_map_f init)) = trace init @ new
           \<and> length (writes new) \<le> length srcs
           \<and> list_all (\<lambda>(p, c). JStr c \<in> set cs \<or> strip is_space c \<noteq> []) (writes new))
     \<and> writes (trace (final (recover_sources
                  (remote_source demo_env ''out'' ''https://cdn.example/js/app.js'' ''app.js.map'')
                  demo_map_f init))) =
        [(''out/src/index.js'', ''console.log(1)''), (''out/src/empty.js'', []),
         (''out/src/util.js'', ''export {}''), (''out/../lib/up.js'', ''up'')]"
proof -
  let ?srcs = "[JStr ''webpack:///src/index.js'', JStr ''src/empty.js'',
                JStr ''src/gone.js'', JStr ''src/util.js'', JStr ''../lib/up.js'']"
  let ?cs = "[JStr ''console.log(1)'', JStr [], JNull]"
  have h1: "dict_get demo_map_f ''sources'' (JArr []) = Inr (JArr ?srcs)"
    by code_simp
  have h2: "dict_get demo_map_f ''sourcesContent'' (JArr []) = Inr (JArr ?cs)"
    by code_simp
  have h3: "list_all opt_str ?cs" by simp
  have l: "length ?srcs = 5" by simp
  have w: "writes (trace (final (recover_sources
                  (remote_source demo_env ''out'' ''https://cdn.example/js/app.js'' ''app.js.map'')
                  demo_map_f init))) =
        [(''out/src/index.js'', ''console.log(1)''), (''out/src/empty.js'', []),
         (''out/src/util.js'', ''export {}''), (''out/../lib/up.js'', ''up'')]"
    by code_simp
  note inst = recovered_files_bounded[OF h1 h2 h3, of demo_env "''out''"
      "''https://cdn.example/js/app.js''" "''app.js.map''" init, THEN conjunct1]
  show ?thesis
    by (rule exI[of _ ?srcs], rule exI[of _ ?cs], intro conjI)
       (rule h1 h2 h3 l inst w)+
qed

text \<open>
  Claim C5 as stated fails: the second entry of \<^verbatim>\<open>sourcesContent\<close> of the map of page \<^verbatim>\<open>f\<close>
  is the empty string, it is not \<^verbatim>\<open>None\<close>, and \<^verbatim>\<open>src/empty.js\<close> is saved with no content
  and counted.
\<close>

theorem empty_file_saved_counterexample:
  "dict_get demo_map_f ''sourcesContent'' (JArr [])
     = Inr (JArr [JStr ''console.log(1)'', JStr [], JNull])
   \<and> writes (trace (final (recover_sources
                  (remote_source demo_env ''out'' ''https://cdn.example/js/app.js'' ''app.js.map'')
                  demo_map_f init))) =
        [(''out/src/index.js'', ''console.log(1)''), (''out/src/empty.js'', []),
         (''out/src/util.js'', ''export {}''), (''out/../lib/up.js'', ''up'')]
   \<and> saved_files (final (recover_sources
                  (remote_source demo_env ''out'' ''https://cdn.example/js/app.js'' ''app.js.map'')
                  demo_map_f init)) = 4"
  by code_simp

section \<open>A source without content\<close>

text \<open>
  Claim C7 on page \<^verbatim>\<open>c\<close>, an inline script whose map has no content for its first source:
  the fetch of \<^verbatim>\<open>src/a.js\<close> is answered 404, the source is skipped and the second source
  is saved, but no line is printed for the skipped source. The loop of a remote script
  prints one (\<open>remote_skip_continues\<close>); the loop of an inline script never prints
  (\<open>inline_source_new\<close>).
\<close>

theorem inline_skip_not_logged:
  "fst (main demo_env [''grab'', ''https://site.example/c'', ''out'']) = Finished
   \<and> gets (trace (snd (main demo_env [''grab'', ''https://site.example/c'', ''out''])))
       = [''https://site.example/c'', ''https://site.example/src/a.js'']
   \<and> map_option status_code (http_get demo_env ''https://site.example/src/a.js'') = Some 404
   \<and> writes (trace (snd (main demo_env [''grab'', ''https://site.example/c'', ''out''])))
       = [(''out/src/b.js'', ''B'')]
   \<and> prints (trace (snd (main demo_env [''grab'', ''https://site.example/c'', ''out''])))
       = [Found_entries 1 ''https://site.example/c'',
          Inline_mapping (Some ''data:application/json,{\"sources\":[\"src/a.js\",\"src/b.js\"],\"sourcesContent\":[null,\"B\"]}''),
          Summary 1 1 ''out'']"
  by code_simp

section \<open>A reference that cannot be decoded\<close>

text \<open>
  Claim C3 on page \<^verbatim>\<open>b\<close>, an inline script whose reference is
  \<^verbatim>\<open>data:application/json,{\<close>: \<^verbatim>\<open>json.loads\<close> raises outside every \<^verbatim>\<open>try\<close>, and the run ends
  with the exception before the summary is printed.
\<close>

theorem bad_data_uri_terminates_run:
  "main demo_env [''grab'', ''https://site.example/b'', ''out''] =
     (Uncaught JSONDecodeError,
      \<lparr>trace = [MkDirs ''out'', Get ''https://site.example/b'',
                Print (Found_entries 1 ''https://site.example/b''),
                Print (Inline_mapping (Some ''data:application/json,{''))],
       processed_maps = 0, saved_files = 0\<rparr>)
   \<and> script_tags demo_env ''B'' = [(None, Some ''//# sourceMappingURL=data:application/json,{'')]
   \<and> json_loads demo_env ''{'' = None"
  by code_simp

section \<open>The base URL of a fetched source\<close>




section \<open>The output directory\<close>




section \<open>The reference of a script to its map\<close>

text \<open>
  Claim C9. For every script text the reference extractor returns the value of the first
  match, trimmed of white space at both ends: the text is scanned from left to right, at
  each place the line-comment form \<^verbatim>\<open>//# sourceMappingURL=<value>\<close> is tried before the
  block-comment form \<^verbatim>\<open>/*# sourceMappingURL=<value> */\<close>, and a value ends with its line. It
  returns \<^verbatim>\<open>None\<close> exactly when neither form matches at any place. In particular, when the
  first match of a body is a line comment whose value \<open>v\<close> is followed on its line by white
  space only, the result is \<open>v\<close> trimmed; no exception is raised.
\<close>

theorem reference_is_first_match:
  "extract_mapping_reference js = Inr (map_option (strip is_space) (first_reference js))
   \<and> (extract_mapping_reference js = Inr None \<longleftrightarrow>
        list_all (\<lambda>k. line_comment (drop k js) = None \<and> block_comment (drop k js) = None)
          [0..<length js])
   \<and> (js = pre @ line_prefix @ v @ post
        \<and> list_all (\<lambda>k. line_comment (drop k js) = None \<and> block_comment (drop k js) = None)
            [0..<length pre]
        \<and> v \<noteq> [] \<and> CHR 0x0A \<notin> set v
        \<and> list_all is_space (takeWhile (\<lambda>c. c \<noteq> CHR 0x0A) post)
      \<longrightarrow> extract_mapping_reference js = Inr (Some (strip is_space v)))"
proof (intro conjI impI)
  show e: "extract_mapping_reference js
             = Inr (map_option (strip is_space) (first_reference js))"
    by (rule extract_is_first_reference)
  show "extract_mapping_reference js = Inr None \<longleftrightarrow>
        list_all (\<lambda>k. line_comment (drop k js) = None \<and> block_comment (drop k js) = None)
          [0..<length js]"
    using first_reference_None_iff[of js] by (simp add: e)
  assume a: "js = pre @ line_prefix @ v @ post
        \<and> list_all (\<lambda>k. line_comment (drop k js) = None \<and> block_comment (drop k js) = None)
            [0..<length pre]
        \<and> v \<noteq> [] \<and> CHR 0x0A \<notin> set v
        \<and> list_all is_space (takeWhile (\<lambda>c. c \<noteq> CHR 0x0A) post)"
  then have "list_all (\<lambda>k. line_comment (drop k js) = None \<and> block_comment (drop k js) = None)
               [0..<length pre]"
    by (rule conjunct1[OF conjunct2])
  then have "\<And>k. k < length pre \<Longrightarrow>
               line_comment (drop k js) = None \<and> block_comment (drop k js) = None"
    by (simp add: list_all_iff)
  moreover have "length pre \<le> length js" using a by simp
  ultimately have "first_reference js = first_reference (drop (length pre) js)"
    by (rule first_reference_skip)
  also have "drop (length pre) js = line_prefix @ v @ post" using a by simp
  also have "first_reference (line_prefix @ v @ post)
               = Some (v @ takeWhile (\<lambda>c. c \<noteq> CHR 0x0A) post)"
    using a by (intro first_reference_line) simp_all
  finally have "first_reference js = Some (v @ takeWhile (\<lambda>c. c \<noteq> CHR 0x0A) post)" .
  moreover have "strip is_space (v @ takeWhile (\<lambda>c. c \<noteq> CHR 0x0A) post) = strip is_space v"
    using a by (intro strip_trailing_space) simp
  ultimately show "extract_mapping_reference js = Inr (Some (strip is_space v))"
    by (simp add: e)
qed

text \<open>
  The theorem on a body of four lines whose third line is
  \<^verbatim>\<open>//# sourceMappingURL=foo.js.map\<close>: the result is exactly \<^verbatim>\<open>foo.js.map\<close>.
\<close>

theorem reference_is_first_match_witness:
  "extract_mapping_reference
     ''var a = 1;\<newline>console.log(a);\<newline>//# sourceMappingURL=foo.js.map\<newline>var b;''
     = Inr (Some ''foo.js.map'')"
proof -
  let ?pre = "''var a = 1;\<newline>console.log(a);\<newline>''"
  let ?post = "''\<newline>var b;''"
  let ?js = "?pre @ line_prefix @ ''foo.js.map'' @ ?post"
  have h: "?js = ?pre @ line_prefix @ ''foo.js.map'' @ ?post
        \<and> list_all (\<lambda>k. line_comment (drop k ?js) = None \<and> block_comment (drop k ?js) = None)
            [0..<length ?pre]
        \<and> ''foo.js.map'' \<noteq> [] \<and> CHR 0x0A \<notin> set ''foo.js.map''
        \<and> list_all is_space (takeWhile (\<lambda>c. c \<noteq> CHR 0x0A) ?post)"
    by code_simp
  have s: "strip is_space ''foo.js.map'' = ''foo.js.map''" by code_simp
  have j: "?js = ''var a = 1;\<newline>console.log(a);\<newline>//# sourceMappingURL=foo.js.map\<newline>var b;''"
    by (simp add: line_prefix_def)
  have "extract_mapping_reference ?js = Inr (Some (strip is_space ''foo.js.map''))"
    by (rule mp[OF conjunct2[OF conjunct2[OF reference_is_first_match]] h])
  then show ?thesis by (simp only: s j)
qed

end
